theory Spec2Isabelle
  imports Complex_Main
begin

section \<open>JavaScript values of the model\<close>

text \<open>
  A JavaScript number is an IEEE 754 double. The finite doubles are modelled as the reals
  that rounding leaves unchanged, and every arithmetic operation of the layers is the
  operation on the reals followed by rounding to the nearest double, ties to the even
  significand (\<open>fl\<close> below). Infinities and NaN are outside the model: an operation
  that overflows has no value (\<open>None\<close>), as one on \<open>undefined\<close> has none. The two zeros are
  not distinguished. Dimensions, coordinates and counters are integers, and an array of
  any length that is not negative can be allocated. Every place where
  the JavaScript throws is a branch returning \<open>Inl\<close>. A run that would put NaN or an
  infinity into an array or a size (a read past the end of an array yields \<open>undefined\<close>,
  arithmetic on it NaN) ends with \<open>Inl NonReal\<close>, since the reals have no such value;
  this is the one \<open>Inl\<close> that is not a JavaScript exception.
\<close>

datatype error =
    Error string
  | TypeError
  | RangeError
  | NonReal

text \<open>\<open>zeros(n)\<close>: a fresh typed array of \<open>n\<close> zeros; a negative length throws RangeError.\<close>

definition zeros :: "int \<Rightarrow> error + ('a::zero) list" where
  "zeros n = (if n < 0 then Inl RangeError else Inr (replicate (nat n) 0))"

text \<open>\<open>a[i]\<close> for a read: \<open>None\<close> is JavaScript's \<open>undefined\<close>.\<close>

definition rd :: "'a list \<Rightarrow> int \<Rightarrow> 'a option" where
  "rd a i = (if 0 \<le> i \<and> i < int (length a) then Some (a ! nat i) else None)"

text \<open>
  Rounding to the nearest integer, ties to the even one.
\<close>

definition rne :: "real \<Rightarrow> int" where
  "rne r = (let n = \<lfloor>r\<rfloor>; f = r - of_int n in
            if f < 1/2 then n else if 1/2 < f then n + 1 else if even n then n else n + 1)"

text \<open>
  The exponent of the unit in the last place of a double near \<open>x\<close>: 52 below the binary
  exponent of \<open>x\<close>, which is at least \<open>-1022\<close> (below it the doubles are subnormal and
  equally spaced).
\<close>

definition ulp_exp :: "real \<Rightarrow> int" where
  "ulp_exp x = max \<lfloor>log 2 \<bar>x\<bar>\<rfloor> (-1022) - 52"

text \<open>
  \<open>fl x\<close> is the double nearest to \<open>x\<close>, ties to even; from \<open>2^1024\<close> on the result is an
  infinity, which the model does not have.
\<close>

definition fl_val :: "real \<Rightarrow> real" where
  "fl_val x = of_int (rne (x / 2 powr of_int (ulp_exp x))) * 2 powr of_int (ulp_exp x)"

definition fl :: "real \<Rightarrow> real option" where
  "fl x = (if \<bar>fl_val x\<bar> < 2 ^ 1024 then Some (fl_val x) else None)"

definition is_double :: "real \<Rightarrow> bool" where
  "is_double x \<longleftrightarrow> fl x = Some x"

text \<open>
  The value of a numeric expression is a \<open>real option\<close>: \<open>None\<close> is \<open>undefined\<close>, NaN
  or an infinity. In the formulas below a value that is once not real stays so. The
  result of each operation is rounded.
\<close>

definition oadd :: "real option \<Rightarrow> real option \<Rightarrow> real option" where
  "oadd a b = (case a of None \<Rightarrow> None
               | Some x \<Rightarrow> (case b of None \<Rightarrow> None | Some y \<Rightarrow> fl (x + y)))"

definition omul :: "real option \<Rightarrow> real option \<Rightarrow> real option" where
  "omul a b = (case a of None \<Rightarrow> None
               | Some x \<Rightarrow> (case b of None \<Rightarrow> None | Some y \<Rightarrow> fl (x * y)))"

definition osub :: "real option \<Rightarrow> real option \<Rightarrow> real option" where
  "osub a b = (case a of None \<Rightarrow> None
               | Some x \<Rightarrow> (case b of None \<Rightarrow> None | Some y \<Rightarrow> fl (x - y)))"

definition odiv :: "real option \<Rightarrow> real option \<Rightarrow> real option" where
  "odiv a b = (case a of None \<Rightarrow> None
               | Some x \<Rightarrow> (case b of None \<Rightarrow> None
                            | Some y \<Rightarrow> if y = 0 then None else fl (x / y)))"

definition osqrt :: "real option \<Rightarrow> real option" where
  "osqrt a = (case a of None \<Rightarrow> None | Some x \<Rightarrow> if x < 0 then None else fl (sqrt x))"

text \<open>
  \<open>a[i] = v\<close> on a typed array: a store outside the array is ignored; a store of NaN
  inside it leaves the model.
\<close>

definition store :: "real list \<Rightarrow> int \<Rightarrow> real option \<Rightarrow> error + real list" where
  "store a i v =
     (if 0 \<le> i \<and> i < int (length a)
      then (case v of None \<Rightarrow> Inl NonReal | Some x \<Rightarrow> Inr (a[nat i := x]))
      else Inr a)"

text \<open>\<open>a[i] += v\<close>\<close>

definition add_to :: "real list \<Rightarrow> int \<Rightarrow> real option \<Rightarrow> error + real list" where
  "add_to a i v = store a i (oadd (rd a i) v)"

text \<open>A \<open>for\<close> loop whose body may throw: the first error ends the loop.\<close>

fun foldE :: "('a \<Rightarrow> 's \<Rightarrow> error + 's) \<Rightarrow> 'a list \<Rightarrow> 's \<Rightarrow> error + 's" where
  "foldE f [] s = Inr s"
| "foldE f (x # xs) s = (case f x s of Inl e \<Rightarrow> Inl e | Inr s' \<Rightarrow> foldE f xs s')"

text \<open>\<open>x | 0\<close>: conversion to a signed 32-bit integer.\<close>

definition to_int32 :: "int \<Rightarrow> int" where
  "to_int32 x = (x + 2147483648) mod 4294967296 - 2147483648"

section \<open>Vol\<close>

record vol =
  sx :: int
  sy :: int
  depth :: int
  w :: "real list"
  dw :: "real list"

text \<open>\<open>new Vol(sx, sy, depth, c)\<close> with the constant \<open>c\<close> given.\<close>

definition Vol :: "int \<Rightarrow> int \<Rightarrow> int \<Rightarrow> real \<Rightarrow> error + vol" where
  "Vol x y d c =
     (let n = x * y * d in
      case zeros n of Inl e \<Rightarrow> Inl e
      | Inr z \<Rightarrow> Inr \<lparr>sx = x, sy = y, depth = d, w = replicate (nat n) c, dw = z\<rparr>)"

text \<open>
  \<open>new Vol(sx, sy, depth)\<close> without \<open>c\<close>: the weights are \<open>randn(0, scale)\<close>, that is
  \<open>0 + gaussRandom() * scale\<close>. The Gaussian samples are a stream \<open>g\<close> read from position
  \<open>i\<close>; the new position is returned. The random weights are left as reals, without
  rounding: no statement below depends on their values.
\<close>

definition Vol_randn :: "(nat \<Rightarrow> real) \<Rightarrow> nat \<Rightarrow> int \<Rightarrow> int \<Rightarrow> int \<Rightarrow> error + (vol \<times> nat)" where
  "Vol_randn g i x y d =
     (let n = x * y * d in
      case zeros n of Inl e \<Rightarrow> Inl e
      | Inr z \<Rightarrow>
          (let scale = sqrt (1 / real_of_int (x * y * d)) in
           Inr (\<lparr>sx = x, sy = y, depth = d,
                 w = map (\<lambda>j. 0 + g (i + j) * scale) [0..<nat n], dw = z\<rparr>, i + nat n)))"

definition ix :: "vol \<Rightarrow> int \<Rightarrow> int \<Rightarrow> int \<Rightarrow> int" where
  "ix V x y d = ((sx V * y) + x) * depth V + d"

definition get :: "vol \<Rightarrow> int \<Rightarrow> int \<Rightarrow> int \<Rightarrow> real option" where
  "get V x y d = rd (w V) (ix V x y d)"

definition set_v :: "vol \<Rightarrow> int \<Rightarrow> int \<Rightarrow> int \<Rightarrow> real option \<Rightarrow> error + vol" where
  "set_v V x y d v =
     (case store (w V) (ix V x y d) v of Inl e \<Rightarrow> Inl e | Inr a \<Rightarrow> Inr (V\<lparr>w := a\<rparr>))"

definition get_grad :: "vol \<Rightarrow> int \<Rightarrow> int \<Rightarrow> int \<Rightarrow> real option" where
  "get_grad V x y d = rd (dw V) (ix V x y d)"

definition add_grad :: "vol \<Rightarrow> int \<Rightarrow> int \<Rightarrow> int \<Rightarrow> real option \<Rightarrow> error + vol" where
  "add_grad V x y d v =
     (case add_to (dw V) (ix V x y d) v of Inl e \<Rightarrow> Inl e | Inr a \<Rightarrow> Inr (V\<lparr>dw := a\<rparr>))"

record vol_json =
  j_sx :: int
  j_sy :: int
  j_depth :: int
  j_w :: "real list"

definition toJSON :: "vol \<Rightarrow> vol_json" where
  "toJSON V = \<lparr>j_sx = sx V, j_sy = sy V, j_depth = depth V, j_w = w V\<rparr>"

text \<open>
  \<open>fromJSON\<close> overwrites \<open>this\<close>; the copy loop is
  \<open>for(i=0;i<n;i++) this.w[i] = json.w[i]\<close>.
\<close>

definition fromJSON :: "vol \<Rightarrow> vol_json \<Rightarrow> error + vol" where
  "fromJSON this json =
     (let n = j_sx json * j_sy json * j_depth json in
      case zeros n of Inl e \<Rightarrow> Inl e
      | Inr z \<Rightarrow>
          (case foldE (\<lambda>i tw. store tw i (rd (j_w json) i)) [0..n - 1] z of Inl e \<Rightarrow> Inl e
           | Inr tw \<Rightarrow>
               Inr (this\<lparr>sx := j_sx json, sy := j_sy json, depth := j_depth json,
                         w := tw, dw := z\<rparr>)))"

section \<open>Layer definitions (the \<open>opt\<close> objects)\<close>

text \<open>A field that may be absent (\<open>typeof opt.f === 'undefined'\<close>) is an option.\<close>

record opt =
  o_type :: string
  o_filters :: "int option"
  o_num_neurons :: "int option"
  o_num_classes :: "int option"
  o_sx :: "int option"
  o_sy :: "int option"
  o_stride :: "int option"
  o_pad :: "int option"
  o_in_sx :: "int option"
  o_in_sy :: "int option"
  o_in_depth :: "int option"
  o_bias_pref :: "real option"
  o_activation :: "string option"
  o_group_size :: "int option"
  o_drop_prob :: "real option"
  o_l1_decay_mul :: "real option"
  o_l2_decay_mul :: "real option"

text \<open>\<open>typeof x !== 'undefined' ? x : d\<close>\<close>

definition dflt :: "'a option \<Rightarrow> 'a \<Rightarrow> 'a" where
  "dflt x d = (case x of None \<Rightarrow> d | Some v \<Rightarrow> v)"

text \<open>
  \<open>Math.floor((in + pad * 2 - f) / stride + 1)\<close>, computed in the arithmetic of numbers:
  the result is an integer, an infinity (a division by a zero stride, or an overflow) or
  NaN (\<open>0 / 0\<close>).
\<close>

datatype dim = Dim int | DimInfinite | DimNaN

definition out_size :: "int \<Rightarrow> int \<Rightarrow> int \<Rightarrow> int \<Rightarrow> dim" where
  "out_size inp pd f st =
     (case osub (oadd (Some (real_of_int inp)) (omul (Some (real_of_int pd)) (Some 2)))
             (Some (real_of_int f)) of
        None \<Rightarrow> DimInfinite
      | Some a \<Rightarrow>
          if st = 0 then (if a = 0 then DimNaN else DimInfinite)
          else (case oadd (odiv (Some a) (Some (real_of_int st))) (Some 1) of
                  None \<Rightarrow> DimInfinite
                | Some r \<Rightarrow> Dim \<lfloor>r\<rfloor>))"

section \<open>ConvLayer and FullyConnLayer\<close>

record conv_layer =
  c_out_depth :: int
  c_sx :: int
  c_in_depth :: int
  c_in_sx :: int
  c_in_sy :: int
  c_sy :: int
  c_stride :: int
  c_pad :: int
  c_l1_decay_mul :: real
  c_l2_decay_mul :: real
  c_out_sx :: int
  c_out_sy :: int
  c_layer_type :: string
  c_filters :: "vol list"
  c_biases :: vol
  c_in_act :: "vol option"
  c_out_act :: "vol option"

text \<open>\<open>for(i=0;i<n;i++) filters.push(new Vol(x, y, d))\<close>, the sample position threaded.\<close>

definition mk_filters :: "(nat \<Rightarrow> real) \<Rightarrow> nat \<Rightarrow> int \<Rightarrow> int \<Rightarrow> int \<Rightarrow> int \<Rightarrow> error + (vol list \<times> nat)" where
  "mk_filters g i x y d n =
     foldE (\<lambda>_ (fs, i). case Vol_randn g i x y d of Inl e \<Rightarrow> Inl e
                          | Inr (v, i') \<Rightarrow> Inr (fs @ [v], i'))
       [0..n - 1] ([], i)"

text \<open>
  \<open>new ConvLayer(opt)\<close>. A required field that is absent is \<open>undefined\<close> and makes the
  computed sizes NaN. The two output sizes are computed first and only stored; the
  filters and the biases are allocated after them. A layer whose output size is not an
  integer is outside the model.
\<close>

definition ConvLayer :: "(nat \<Rightarrow> real) \<Rightarrow> nat \<Rightarrow> opt \<Rightarrow> error + (conv_layer \<times> nat)" where
  "ConvLayer g i opt =
     (case (o_filters opt, o_sx opt, o_in_depth opt, o_in_sx opt, o_in_sy opt) of
        (Some od, Some fx, Some ind, Some inx, Some iny) \<Rightarrow>
          (let fy = dflt (o_sy opt) fx;
               st = dflt (o_stride opt) 1;
               pd = dflt (o_pad opt) 0;
               l1 = dflt (o_l1_decay_mul opt) 0.0;
               l2 = dflt (o_l2_decay_mul opt) 1.0;
               out_x = out_size inx pd fx st;
               out_y = out_size iny pd fy st;
               bias = dflt (o_bias_pref opt) 0.0
           in case mk_filters g i fx fy ind od of Inl e \<Rightarrow> Inl e
              | Inr (fs, i') \<Rightarrow>
            (case Vol 1 1 od bias of Inl e \<Rightarrow> Inl e
              | Inr b \<Rightarrow>
            (case (out_x, out_y) of
               (Dim ox, Dim oy) \<Rightarrow>
                  Inr (\<lparr>c_out_depth = od, c_sx = fx, c_in_depth = ind, c_in_sx = inx,
                        c_in_sy = iny, c_sy = fy, c_stride = st, c_pad = pd,
                        c_l1_decay_mul = l1, c_l2_decay_mul = l2,
                        c_out_sx = ox, c_out_sy = oy, c_layer_type = ''conv'',
                        c_filters = fs, c_biases = b,
                        c_in_act = None, c_out_act = None\<rparr>, i')
             | _ \<Rightarrow> Inl NonReal)))
      | _ \<Rightarrow> Inl NonReal)"

record fc_layer =
  f_out_depth :: int
  f_l1_decay_mul :: real
  f_l2_decay_mul :: real
  f_num_inputs :: int
  f_out_sx :: int
  f_out_sy :: int
  f_layer_type :: string
  f_filters :: "vol list"
  f_biases :: vol
  f_in_act :: "vol option"
  f_out_act :: "vol option"

definition FullyConnLayer :: "(nat \<Rightarrow> real) \<Rightarrow> nat \<Rightarrow> opt \<Rightarrow> error + (fc_layer \<times> nat)" where
  "FullyConnLayer g i opt =
     (case (case o_num_neurons opt of Some n \<Rightarrow> Some n | None \<Rightarrow> o_filters opt,
            o_in_sx opt, o_in_sy opt, o_in_depth opt) of
        (Some od, Some inx, Some iny, Some ind) \<Rightarrow>
          (let l1 = dflt (o_l1_decay_mul opt) 0.0;
               l2 = dflt (o_l2_decay_mul opt) 1.0;
               ni = inx * iny * ind;
               bias = dflt (o_bias_pref opt) 0.0
           in case mk_filters g i 1 1 ni od of Inl e \<Rightarrow> Inl e
              | Inr (fs, i') \<Rightarrow>
            (case Vol 1 1 od bias of Inl e \<Rightarrow> Inl e
              | Inr b \<Rightarrow>
                Inr (\<lparr>f_out_depth = od, f_l1_decay_mul = l1, f_l2_decay_mul = l2,
                      f_num_inputs = ni, f_out_sx = 1, f_out_sy = 1, f_layer_type = ''fc'',
                      f_filters = fs, f_biases = b,
                      f_in_act = None, f_out_act = None\<rparr>, i')))
      | _ \<Rightarrow> Inl NonReal)"

text \<open>
  A parameter group as \<open>getParamsAndGrads\<close> returns it. The trainer tests the two
  multipliers for \<open>undefined\<close>, so they are options.
\<close>

record pg =
  params :: "real list"
  grads :: "real list"
  l1_decay_mul :: "real option"
  l2_decay_mul :: "real option"

text \<open>
  \<open>for(i=0;i<out_depth;i++) response.push({params: filters[i].w, ...})\<close>: past the end of
  \<open>filters\<close> the element is \<open>undefined\<close> and reading its \<open>w\<close> throws a TypeError.
\<close>

definition filter_groups :: "vol list \<Rightarrow> real \<Rightarrow> real \<Rightarrow> int \<Rightarrow> error + pg list" where
  "filter_groups fs l1 l2 n =
     foldE (\<lambda>i response.
              case rd fs i of
                None \<Rightarrow> Inl TypeError
              | Some f \<Rightarrow>
                  Inr (response @ [\<lparr>params = w f, grads = dw f, l1_decay_mul = Some l1,
                                     l2_decay_mul = Some l2\<rparr>]))
       [0..n - 1] []"

definition conv_getParamsAndGrads :: "conv_layer \<Rightarrow> error + pg list" where
  "conv_getParamsAndGrads L =
     (case filter_groups (c_filters L) (c_l1_decay_mul L) (c_l2_decay_mul L)
             (c_out_depth L) of
        Inl e \<Rightarrow> Inl e
      | Inr response \<Rightarrow>
          Inr (response @ [\<lparr>params = w (c_biases L), grads = dw (c_biases L),
                            l1_decay_mul = Some 0.0, l2_decay_mul = Some 0.0\<rparr>]))"

definition fc_getParamsAndGrads :: "fc_layer \<Rightarrow> error + pg list" where
  "fc_getParamsAndGrads L =
     (case filter_groups (f_filters L) (f_l1_decay_mul L) (f_l2_decay_mul L)
             (f_out_depth L) of
        Inl e \<Rightarrow> Inl e
      | Inr response \<Rightarrow>
          Inr (response @ [\<lparr>params = w (f_biases L), grads = dw (f_biases L),
                            l1_decay_mul = Some 0.0, l2_decay_mul = Some 0.0\<rparr>]))"

section \<open>PoolLayer\<close>

record pool_layer =
  p_sx :: int
  p_in_depth :: int
  p_in_sx :: int
  p_in_sy :: int
  p_sy :: int
  p_stride :: int
  p_pad :: int
  p_out_depth :: int
  p_out_sx :: int
  p_out_sy :: int
  p_layer_type :: string
  p_switchx :: "int list"
  p_switchy :: "int list"
  p_in_act :: "vol option"
  p_out_act :: "vol option"

text \<open>
  \<open>zeros(out_sx * out_sy * out_depth)\<close> for a switch array. With integer sizes it is
  \<open>zeros\<close> of the product. A product that is NaN (a size that is NaN, or an infinite size
  times zero) gives the empty array, and an infinite product throws a RangeError.
\<close>

definition switch_zeros :: "dim \<Rightarrow> dim \<Rightarrow> int \<Rightarrow> error + int list" where
  "switch_zeros out_x out_y od =
     (case (out_x, out_y) of
        (Dim ox, Dim oy) \<Rightarrow> zeros (ox * oy * od)
      | _ \<Rightarrow>
          if out_x = DimNaN \<or> out_y = DimNaN \<or> out_x = Dim 0 \<or> out_y = Dim 0 \<or> od = 0
          then Inr [] else Inl RangeError)"

text \<open>
  \<open>new PoolLayer(opt)\<close>. A layer whose output size is not an integer is outside the model.
\<close>

definition PoolLayer :: "opt \<Rightarrow> error + pool_layer" where
  "PoolLayer opt =
     (case (o_sx opt, o_in_depth opt, o_in_sx opt, o_in_sy opt) of
        (Some fx, Some ind, Some inx, Some iny) \<Rightarrow>
          (let fy = dflt (o_sy opt) fx;
               st = dflt (o_stride opt) 2;
               pd = dflt (o_pad opt) 0;
               out_x = out_size inx pd fx st;
               out_y = out_size iny pd fy st
           in case switch_zeros out_x out_y ind of Inl e \<Rightarrow> Inl e
              | Inr zx \<Rightarrow>
            (case switch_zeros out_x out_y ind of Inl e \<Rightarrow> Inl e
              | Inr zy \<Rightarrow>
            (case (out_x, out_y) of
               (Dim ox, Dim oy) \<Rightarrow>
                Inr \<lparr>p_sx = fx, p_in_depth = ind, p_in_sx = inx, p_in_sy = iny,
                     p_sy = fy, p_stride = st, p_pad = pd, p_out_depth = ind,
                     p_out_sx = ox, p_out_sy = oy, p_layer_type = ''pool'',
                     p_switchx = zx, p_switchy = zy,
                     p_in_act = None, p_out_act = None\<rparr>
             | _ \<Rightarrow> Inl NonReal)))
      | _ \<Rightarrow> Inl NonReal)"

text \<open>
  \<open>forward\<close>, which stores the input and the output Vol in the layer and returns the
  output. The counters \<open>x\<close> and \<open>y\<close> start at \<open>-pad\<close> and advance by \<open>stride\<close> with
  \<open>ax\<close> and \<open>ay\<close>, so at the cell they are \<open>-pad + ax * stride\<close> and \<open>-pad + ay * stride\<close>.
  A comparison with \<open>undefined\<close> is false. The winner is
  \<open>(a, winx, winy)\<close>; the switch counter \<open>n\<close> is part of the loop state.
\<close>

definition pool_pick :: "vol \<Rightarrow> int \<Rightarrow> int \<Rightarrow> int \<Rightarrow> int \<Rightarrow> int \<Rightarrow>
    real \<times> int \<times> int \<Rightarrow> real \<times> int \<times> int" where
  "pool_pick V d x y fx fy s =
     (case s of (a, winx, winy) \<Rightarrow>
        (let oy = y + fy; ox = x + fx in
         if oy \<ge> 0 \<and> oy < sy V \<and> ox \<ge> 0 \<and> ox < sx V
         then (case get V ox oy d of
                 None \<Rightarrow> (a, winx, winy)
               | Some v \<Rightarrow> if v > a then (v, ox, oy) else (a, winx, winy))
         else (a, winx, winy)))"

definition pool_window :: "pool_layer \<Rightarrow> vol \<Rightarrow> int \<Rightarrow> int \<Rightarrow> int \<Rightarrow> real \<times> int \<times> int" where
  "pool_window L V d x y =
     fold (\<lambda>fx. fold (\<lambda>fy. pool_pick V d x y fx fy) [0..p_sy L - 1]) [0..p_sx L - 1]
       (-99999, -1, -1)"

definition pool_cell :: "pool_layer \<Rightarrow> vol \<Rightarrow> int \<Rightarrow> int \<Rightarrow> int \<Rightarrow>
    nat \<times> int list \<times> int list \<times> vol \<Rightarrow> error + (nat \<times> int list \<times> int list \<times> vol)" where
  "pool_cell L V d ax ay s =
     (case s of (n, switchx, switchy, A) \<Rightarrow>
        (let x = - p_pad L + ax * p_stride L;
             y = - p_pad L + ay * p_stride L
         in case pool_window L V d x y of (a, winx, winy) \<Rightarrow>
              (case set_v A ax ay d (Some a) of Inl e \<Rightarrow> Inl e
               | Inr A' \<Rightarrow>
                   Inr (Suc n, switchx[n := winx], switchy[n := winy], A'))))"

definition pool_forward :: "pool_layer \<Rightarrow> vol \<Rightarrow> error + (pool_layer \<times> vol)" where
  "pool_forward L V =
     (case Vol (p_out_sx L) (p_out_sy L) (p_out_depth L) 0.0 of Inl e \<Rightarrow> Inl e
      | Inr A \<Rightarrow>
          (case foldE (\<lambda>d. foldE (\<lambda>ax. foldE (\<lambda>ay. pool_cell L V d ax ay)
                                  [0..p_out_sy L - 1]) [0..p_out_sx L - 1])
                  [0..p_out_depth L - 1] (0, p_switchx L, p_switchy L, A) of
             Inl e \<Rightarrow> Inl e
           | Inr (n, switchx, switchy, A') \<Rightarrow>
               Inr (L\<lparr>p_switchx := switchx, p_switchy := switchy,
                      p_in_act := Some V, p_out_act := Some A'\<rparr>, A')))"

text \<open>
  \<open>backward\<close>. \<open>V\<close> is the input Vol of the last forward pass and \<open>A\<close> the output Vol,
  whose gradient the next layer has written. An absent switch entry is \<open>undefined\<close>: the
  index of the store is then NaN and the store is ignored. Without a forward pass before,
  \<open>in_act\<close> and \<open>out_act\<close> are \<open>undefined\<close> and the first use throws.
\<close>

definition pool_back_cell :: "pool_layer \<Rightarrow> int \<Rightarrow> int \<Rightarrow> int \<Rightarrow>
    nat \<times> vol \<Rightarrow> error + (nat \<times> vol)" where
  "pool_back_cell L d ax ay s =
     (case s of (n, V) \<Rightarrow>
        (case p_out_act L of
           None \<Rightarrow> Inl TypeError
         | Some A \<Rightarrow>
             (let chain_grad = get_grad A ax ay d in
              case (rd (p_switchx L) (int n), rd (p_switchy L) (int n)) of
                (Some wx, Some wy) \<Rightarrow>
                  (case add_grad V wx wy d chain_grad of Inl e \<Rightarrow> Inl e
                   | Inr V' \<Rightarrow> Inr (Suc n, V'))
              | _ \<Rightarrow> Inr (Suc n, V))))"

definition pool_backward :: "pool_layer \<Rightarrow> error + pool_layer" where
  "pool_backward L =
     (case p_in_act L of
        None \<Rightarrow> Inl TypeError
      | Some V0 \<Rightarrow>
          (case zeros (int (length (w V0))) of Inl e \<Rightarrow> Inl e
           | Inr z \<Rightarrow>
               (case foldE (\<lambda>d. foldE (\<lambda>ax. foldE (\<lambda>ay. pool_back_cell L d ax ay)
                                       [0..p_out_sy L - 1]) [0..p_out_sx L - 1])
                       [0..p_out_depth L - 1] (0, V0\<lparr>dw := z\<rparr>) of
                  Inl e \<Rightarrow> Inl e
                | Inr (n, V) \<Rightarrow> Inr (L\<lparr>p_in_act := Some V\<rparr>))))"

definition pool_getParamsAndGrads :: "pool_layer \<Rightarrow> error + pg list" where
  "pool_getParamsAndGrads L = Inr []"

section \<open>Forward and backward of ConvLayer and FullyConnLayer\<close>

text \<open>
  The three inner loops of \<open>ConvLayer.forward\<close> for one output cell, from \<open>a = 0.0\<close>.
\<close>

definition conv_window :: "vol \<Rightarrow> vol \<Rightarrow> int \<Rightarrow> int \<Rightarrow> int \<Rightarrow> int \<Rightarrow> real option" where
  "conv_window f V V_sx V_sy x y =
     fold (\<lambda>fy a.
        let oy = y + fy in
        fold (\<lambda>fx a.
           let ox = x + fx in
           if oy \<ge> 0 \<and> oy < V_sy \<and> ox \<ge> 0 \<and> ox < V_sx
           then fold (\<lambda>fd a.
                  oadd a (omul (rd (w f) (((sx f * fy) + fx) * depth f + fd))
                               (rd (w V) (((V_sx * oy) + ox) * depth V + fd))))
                  [0..depth f - 1] a
           else a)
          [0..sx f - 1] a)
       [0..sy f - 1] (Some 0.0)"

definition conv_cell :: "conv_layer \<Rightarrow> vol \<Rightarrow> int \<Rightarrow> int \<Rightarrow> int \<Rightarrow> vol \<Rightarrow> error + vol" where
  "conv_cell L V d ay ax A =
     (let V_sx = to_int32 (sx V);
          V_sy = to_int32 (sy V);
          xy_stride = to_int32 (c_stride L);
          x = to_int32 (- c_pad L) + ax * xy_stride;
          y = to_int32 (- c_pad L) + ay * xy_stride
      in case rd (c_filters L) d of
           None \<Rightarrow> Inl TypeError
         | Some f \<Rightarrow>
             (let a = conv_window f V V_sx V_sy x y;
                  a = oadd a (rd (w (c_biases L)) d)
              in set_v A ax ay d a))"

definition conv_forward :: "conv_layer \<Rightarrow> vol \<Rightarrow> error + (conv_layer \<times> vol)" where
  "conv_forward L V =
     (case Vol (to_int32 (c_out_sx L)) (to_int32 (c_out_sy L)) (to_int32 (c_out_depth L)) 0.0 of
        Inl e \<Rightarrow> Inl e
      | Inr A \<Rightarrow>
          (case foldE (\<lambda>d. foldE (\<lambda>ay. foldE (\<lambda>ax. conv_cell L V d ay ax)
                                  [0..c_out_sx L - 1]) [0..c_out_sy L - 1])
                  [0..c_out_depth L - 1] A of
             Inl e \<Rightarrow> Inl e
           | Inr A' \<Rightarrow> Inr (L\<lparr>c_in_act := Some V, c_out_act := Some A'\<rparr>, A')))"

text \<open>
  \<open>ConvLayer.backward\<close>. The state of the loops is the filter \<open>f\<close> of the current depth,
  the input Vol \<open>V\<close> and the biases; \<open>f\<close> is written back to \<open>filters[d]\<close> after each cell.
\<close>

definition conv_back_window :: "int \<Rightarrow> int \<Rightarrow> int \<Rightarrow> int \<Rightarrow> real option \<Rightarrow>
    vol \<times> vol \<Rightarrow> error + (vol \<times> vol)" where
  "conv_back_window V_sx V_sy x y chain_grad s0 =
     foldE (\<lambda>fy s.
        let oy = y + fy in
        foldE (\<lambda>fx s.
           let ox = x + fx in
           if oy \<ge> 0 \<and> oy < V_sy \<and> ox \<ge> 0 \<and> ox < V_sx
           then foldE (\<lambda>fd (f, V).
                  let ix1 = ((V_sx * oy) + ox) * depth V + fd;
                      ix2 = ((sx f * fy) + fx) * depth f + fd
                  in case add_to (dw f) ix2 (omul (rd (w V) ix1) chain_grad) of
                       Inl e \<Rightarrow> Inl e
                     | Inr fdw \<Rightarrow>
                         (case add_to (dw V) ix1 (omul (rd (w f) ix2) chain_grad) of
                            Inl e \<Rightarrow> Inl e
                          | Inr Vdw \<Rightarrow> Inr (f\<lparr>dw := fdw\<rparr>, V\<lparr>dw := Vdw\<rparr>)))
                  [0..depth (fst s) - 1] s
           else Inr s)
          [0..sx (fst s) - 1] s)
       [0..sy (fst s0) - 1] s0"

definition conv_back_cell :: "conv_layer \<Rightarrow> int \<Rightarrow> int \<Rightarrow> int \<Rightarrow>
    vol list \<times> vol \<times> vol \<Rightarrow> error + (vol list \<times> vol \<times> vol)" where
  "conv_back_cell L d ay ax s =
     (case s of (filters, V, biases) \<Rightarrow>
        (let V_sx = to_int32 (sx V);
             V_sy = to_int32 (sy V);
             xy_stride = to_int32 (c_stride L);
             x = to_int32 (- c_pad L) + ax * xy_stride;
             y = to_int32 (- c_pad L) + ay * xy_stride
         in case c_out_act L of
              None \<Rightarrow> Inl TypeError
            | Some A \<Rightarrow>
                (let chain_grad = get_grad A ax ay d in
                 case rd filters d of
                   None \<Rightarrow> Inl TypeError
                 | Some f \<Rightarrow>
                     (case conv_back_window V_sx V_sy x y chain_grad (f, V) of
                        Inl e \<Rightarrow> Inl e
                      | Inr (f', V') \<Rightarrow>
                          (case add_to (dw biases) d chain_grad of
                             Inl e \<Rightarrow> Inl e
                           | Inr bdw \<Rightarrow>
                               Inr (filters[nat d := f'], V', biases\<lparr>dw := bdw\<rparr>))))))"

definition conv_backward :: "conv_layer \<Rightarrow> error + conv_layer" where
  "conv_backward L =
     (case c_in_act L of
        None \<Rightarrow> Inl TypeError
      | Some V0 \<Rightarrow>
          (case zeros (int (length (w V0))) of Inl e \<Rightarrow> Inl e
           | Inr z \<Rightarrow>
               (case foldE (\<lambda>d. foldE (\<lambda>ay. foldE (\<lambda>ax. conv_back_cell L d ay ax)
                                       [0..c_out_sx L - 1]) [0..c_out_sy L - 1])
                       [0..c_out_depth L - 1] (c_filters L, V0\<lparr>dw := z\<rparr>, c_biases L) of
                  Inl e \<Rightarrow> Inl e
                | Inr (filters, V, biases) \<Rightarrow>
                    Inr (L\<lparr>c_filters := filters, c_biases := biases, c_in_act := Some V\<rparr>))))"

text \<open>\<open>FullyConnLayer.forward\<close> and \<open>backward\<close>.\<close>

definition fc_neuron :: "fc_layer \<Rightarrow> vol \<Rightarrow> int \<Rightarrow> vol \<Rightarrow> error + vol" where
  "fc_neuron L V i A =
     (case rd (f_filters L) i of
        None \<Rightarrow> Inl TypeError
      | Some fi \<Rightarrow>
          (let wi = w fi;
               a = fold (\<lambda>d a. oadd a (omul (rd (w V) d) (rd wi d)))
                     [0..f_num_inputs L - 1] (Some 0.0);
               a = oadd a (rd (w (f_biases L)) i)
           in case store (w A) i a of Inl e \<Rightarrow> Inl e | Inr Aw \<Rightarrow> Inr (A\<lparr>w := Aw\<rparr>)))"

definition fc_forward :: "fc_layer \<Rightarrow> vol \<Rightarrow> error + (fc_layer \<times> vol)" where
  "fc_forward L V =
     (case Vol 1 1 (f_out_depth L) 0.0 of Inl e \<Rightarrow> Inl e
      | Inr A \<Rightarrow>
          (case foldE (fc_neuron L V) [0..f_out_depth L - 1] A of Inl e \<Rightarrow> Inl e
           | Inr A' \<Rightarrow> Inr (L\<lparr>f_in_act := Some V, f_out_act := Some A'\<rparr>, A')))"

definition fc_back_neuron :: "fc_layer \<Rightarrow> int \<Rightarrow>
    vol list \<times> vol \<times> vol \<Rightarrow> error + (vol list \<times> vol \<times> vol)" where
  "fc_back_neuron L i s =
     (case s of (filters, V, biases) \<Rightarrow>
        (case f_out_act L of
           None \<Rightarrow> Inl TypeError
         | Some A \<Rightarrow>
             (let chain_grad = rd (dw A) i in
              case (case rd filters i of
                      None \<Rightarrow> if 0 < f_num_inputs L then Inl TypeError else Inr (filters, V)
                    | Some tfi0 \<Rightarrow>
                        (case foldE (\<lambda>d (tfi, V).
                                case add_to (dw V) d (omul (rd (w tfi) d) chain_grad) of
                                  Inl e \<Rightarrow> Inl e
                                | Inr Vdw \<Rightarrow>
                                    (case add_to (dw tfi) d (omul (rd (w V) d) chain_grad) of
                                       Inl e \<Rightarrow> Inl e
                                     | Inr tdw \<Rightarrow> Inr (tfi\<lparr>dw := tdw\<rparr>, V\<lparr>dw := Vdw\<rparr>)))
                                [0..f_num_inputs L - 1] (tfi0, V) of
                           Inl e \<Rightarrow> Inl e
                         | Inr (tfi, V') \<Rightarrow> Inr (filters[nat i := tfi], V'))) of
                Inl e \<Rightarrow> Inl e
              | Inr (filters', V') \<Rightarrow>
                  (case add_to (dw biases) i chain_grad of
                     Inl e \<Rightarrow> Inl e
                   | Inr bdw \<Rightarrow> Inr (filters', V', biases\<lparr>dw := bdw\<rparr>)))))"

definition fc_backward :: "fc_layer \<Rightarrow> error + fc_layer" where
  "fc_backward L =
     (case f_in_act L of
        None \<Rightarrow> Inl TypeError
      | Some V0 \<Rightarrow>
          (case zeros (int (length (w V0))) of Inl e \<Rightarrow> Inl e
           | Inr z \<Rightarrow>
               (case foldE (fc_back_neuron L) [0..f_out_depth L - 1]
                       (f_filters L, V0\<lparr>dw := z\<rparr>, f_biases L) of
                  Inl e \<Rightarrow> Inl e
                | Inr (filters, V, biases) \<Rightarrow>
                    Inr (L\<lparr>f_filters := filters, f_biases := biases, f_in_act := Some V\<rparr>))))"

section \<open>Net\<close>

text \<open>
  Modelled from the spec: the layers whose source is not part of this core (input,
  relu, sigmoid, tanh, maxout, dropout, lrn, softmax, svm, regression) are values of a
  type \<open>'e\<close> with the operations of the Layer contract: a constructor from a layer
  definition, the type tag, the output shape, the stored input and output Vol,
  \<open>forward(V, is_training)\<close> returning the output Vol, and \<open>backward(y)\<close> returning the loss
  (\<open>undefined\<close> for a layer that is not a loss layer). They are parameter-free:
  their \<open>getParamsAndGrads\<close> is empty. \<open>e_put_out_act\<close> stands for the sharing of the output
  Vol with the next layer, which writes its gradient.
\<close>

record ('e, 'y) ext =
  e_new :: "opt \<Rightarrow> error + 'e"
  e_layer_type :: "'e \<Rightarrow> string"
  e_out_sx :: "'e \<Rightarrow> int"
  e_out_sy :: "'e \<Rightarrow> int"
  e_out_depth :: "'e \<Rightarrow> int"
  e_in_act :: "'e \<Rightarrow> vol option"
  e_out_act :: "'e \<Rightarrow> vol option"
  e_put_out_act :: "'e \<Rightarrow> vol \<Rightarrow> 'e"
  e_forward :: "'e \<Rightarrow> vol \<Rightarrow> bool \<Rightarrow> error + ('e \<times> vol)"
  e_backward :: "'e \<Rightarrow> 'y option \<Rightarrow> error + ('e \<times> real option)"

datatype 'e layer = Conv conv_layer | FC fc_layer | Pool pool_layer | Ext 'e

record 'e net =
  layers :: "'e layer list"

fun layer_type :: "('e, 'y) ext \<Rightarrow> 'e layer \<Rightarrow> string" where
  "layer_type X (Conv L) = c_layer_type L"
| "layer_type X (FC L) = f_layer_type L"
| "layer_type X (Pool L) = p_layer_type L"
| "layer_type X (Ext L) = e_layer_type X L"

fun out_sx :: "('e, 'y) ext \<Rightarrow> 'e layer \<Rightarrow> int" where
  "out_sx X (Conv L) = c_out_sx L"
| "out_sx X (FC L) = f_out_sx L"
| "out_sx X (Pool L) = p_out_sx L"
| "out_sx X (Ext L) = e_out_sx X L"

fun out_sy :: "('e, 'y) ext \<Rightarrow> 'e layer \<Rightarrow> int" where
  "out_sy X (Conv L) = c_out_sy L"
| "out_sy X (FC L) = f_out_sy L"
| "out_sy X (Pool L) = p_out_sy L"
| "out_sy X (Ext L) = e_out_sy X L"

fun out_depth :: "('e, 'y) ext \<Rightarrow> 'e layer \<Rightarrow> int" where
  "out_depth X (Conv L) = c_out_depth L"
| "out_depth X (FC L) = f_out_depth L"
| "out_depth X (Pool L) = p_out_depth L"
| "out_depth X (Ext L) = e_out_depth X L"

fun in_act :: "('e, 'y) ext \<Rightarrow> 'e layer \<Rightarrow> vol option" where
  "in_act X (Conv L) = c_in_act L"
| "in_act X (FC L) = f_in_act L"
| "in_act X (Pool L) = p_in_act L"
| "in_act X (Ext L) = e_in_act X L"

fun out_act :: "('e, 'y) ext \<Rightarrow> 'e layer \<Rightarrow> vol option" where
  "out_act X (Conv L) = c_out_act L"
| "out_act X (FC L) = f_out_act L"
| "out_act X (Pool L) = p_out_act L"
| "out_act X (Ext L) = e_out_act X L"

fun put_out_act :: "('e, 'y) ext \<Rightarrow> 'e layer \<Rightarrow> vol \<Rightarrow> 'e layer" where
  "put_out_act X (Conv L) A = Conv (L\<lparr>c_out_act := Some A\<rparr>)"
| "put_out_act X (FC L) A = FC (L\<lparr>f_out_act := Some A\<rparr>)"
| "put_out_act X (Pool L) A = Pool (L\<lparr>p_out_act := Some A\<rparr>)"
| "put_out_act X (Ext L) A = Ext (e_put_out_act X L A)"

fun layer_forward :: "('e, 'y) ext \<Rightarrow> 'e layer \<Rightarrow> vol \<Rightarrow> bool \<Rightarrow> error + ('e layer \<times> vol)" where
  "layer_forward X (Conv L) V is_training =
     (case conv_forward L V of Inl e \<Rightarrow> Inl e | Inr (L', A) \<Rightarrow> Inr (Conv L', A))"
| "layer_forward X (FC L) V is_training =
     (case fc_forward L V of Inl e \<Rightarrow> Inl e | Inr (L', A) \<Rightarrow> Inr (FC L', A))"
| "layer_forward X (Pool L) V is_training =
     (case pool_forward L V of Inl e \<Rightarrow> Inl e | Inr (L', A) \<Rightarrow> Inr (Pool L', A))"
| "layer_forward X (Ext L) V is_training =
     (case e_forward X L V is_training of Inl e \<Rightarrow> Inl e | Inr (L', A) \<Rightarrow> Inr (Ext L', A))"

text \<open>The backward of the three layers of this core takes no target and returns nothing.\<close>

fun layer_backward :: "('e, 'y) ext \<Rightarrow> 'e layer \<Rightarrow> 'y option \<Rightarrow> error + ('e layer \<times> real option)" where
  "layer_backward X (Conv L) y =
     (case conv_backward L of Inl e \<Rightarrow> Inl e | Inr L' \<Rightarrow> Inr (Conv L', None))"
| "layer_backward X (FC L) y =
     (case fc_backward L of Inl e \<Rightarrow> Inl e | Inr L' \<Rightarrow> Inr (FC L', None))"
| "layer_backward X (Pool L) y =
     (case pool_backward L of Inl e \<Rightarrow> Inl e | Inr L' \<Rightarrow> Inr (Pool L', None))"
| "layer_backward X (Ext L) y =
     (case e_backward X L y of Inl e \<Rightarrow> Inl e | Inr (L', loss) \<Rightarrow> Inr (Ext L', loss))"

fun layer_getParamsAndGrads :: "'e layer \<Rightarrow> error + pg list" where
  "layer_getParamsAndGrads (Conv L) = conv_getParamsAndGrads L"
| "layer_getParamsAndGrads (FC L) = fc_getParamsAndGrads L"
| "layer_getParamsAndGrads (Pool L) = pool_getParamsAndGrads L"
| "layer_getParamsAndGrads (Ext L) = Inr []"

subsection \<open>makeLayers\<close>

definition new_def :: "string \<Rightarrow> opt" where
  "new_def t = \<lparr>o_type = t, o_filters = None, o_num_neurons = None, o_num_classes = None,
     o_sx = None, o_sy = None, o_stride = None, o_pad = None, o_in_sx = None,
     o_in_sy = None, o_in_depth = None, o_bias_pref = None, o_activation = None,
     o_group_size = None, o_drop_prob = None, o_l1_decay_mul = None,
     o_l2_decay_mul = None\<rparr>"

text \<open>
  One round of the loop of \<open>desugar\<close>: the definitions pushed for \<open>def\<close> and the lines
  written to the console. (\<open>def.group_size !== 'undefined'\<close> compares with a string and is
  true, so \<open>gs\<close> is \<open>def.group_size\<close>.)
\<close>

definition desugar_def :: "opt \<Rightarrow> opt list \<times> string list \<Rightarrow> opt list \<times> string list" where
  "desugar_def def0 s =
     (case s of (new_defs0, con0) \<Rightarrow>
        (let new_defs1 =
               (if o_type def0 = ''softmax'' \<or> o_type def0 = ''svm''
                then new_defs0 @ [(new_def ''fc'')\<lparr>o_num_neurons := o_num_classes def0\<rparr>]
                else new_defs0);
             new_defs2 =
               (if o_type def0 = ''regression''
                then new_defs1 @ [(new_def ''fc'')\<lparr>o_num_neurons := o_num_neurons def0\<rparr>]
                else new_defs1);
             def =
               (if (o_type def0 = ''fc'' \<or> o_type def0 = ''conv'') \<and> o_bias_pref def0 = None
                then def0\<lparr>o_bias_pref :=
                       Some (if o_activation def0 = Some ''relu'' then 0.1 else 0.0)\<rparr>
                else def0);
             new_defs3 = new_defs2 @ [def];
             (new_defs4, con1) =
               (case o_activation def of
                  None \<Rightarrow> (new_defs3, con0)
                | Some a \<Rightarrow>
                    if a = ''relu'' then (new_defs3 @ [new_def ''relu''], con0)
                    else if a = ''sigmoid'' then (new_defs3 @ [new_def ''sigmoid''], con0)
                    else if a = ''tanh'' then (new_defs3 @ [new_def ''tanh''], con0)
                    else if a = ''maxout''
                      then (new_defs3 @ [(new_def ''maxout'')\<lparr>o_group_size := o_group_size def\<rparr>],
                            con0)
                    else (new_defs3, con0 @ [''ERROR unsupported activation '' @ a]));
             new_defs5 =
               (if o_drop_prob def \<noteq> None \<and> o_type def \<noteq> ''dropout''
                then new_defs4 @ [(new_def ''dropout'')\<lparr>o_drop_prob := o_drop_prob def\<rparr>]
                else new_defs4)
         in (new_defs5, con1)))"

definition desugar :: "opt list \<Rightarrow> opt list \<times> string list" where
  "desugar defs = fold desugar_def defs ([], [])"

text \<open>
  The \<open>switch\<close> on \<open>def.type\<close>: the state is the layers built so far, the position in the
  stream of Gaussian samples and the console log.
\<close>

definition construct :: "('e, 'y) ext \<Rightarrow> (nat \<Rightarrow> real) \<Rightarrow> opt \<Rightarrow>
    'e layer list \<times> nat \<times> string list \<Rightarrow> error + ('e layer list \<times> nat \<times> string list)" where
  "construct X g def s =
     (case s of (ls, i, con) \<Rightarrow>
        if o_type def = ''fc''
        then (case FullyConnLayer g i def of Inl e \<Rightarrow> Inl e
              | Inr (L, i') \<Rightarrow> Inr (ls @ [FC L], i', con))
        else if o_type def \<in> {''lrn'', ''dropout'', ''input'', ''softmax'', ''regression''}
        then (case e_new X def of Inl e \<Rightarrow> Inl e | Inr L \<Rightarrow> Inr (ls @ [Ext L], i, con))
        else if o_type def = ''conv''
        then (case ConvLayer g i def of Inl e \<Rightarrow> Inl e
              | Inr (L, i') \<Rightarrow> Inr (ls @ [Conv L], i', con))
        else if o_type def = ''pool''
        then (case PoolLayer def of Inl e \<Rightarrow> Inl e | Inr L \<Rightarrow> Inr (ls @ [Pool L], i, con))
        else if o_type def \<in> {''relu'', ''sigmoid'', ''tanh'', ''maxout'', ''svm''}
        then (case e_new X def of Inl e \<Rightarrow> Inl e | Inr L \<Rightarrow> Inr (ls @ [Ext L], i, con))
        else Inr (ls, i, con @ [''ERROR: UNRECOGNIZED LAYER TYPE: '' @ o_type def]))"

text \<open>
  One round of the creating loop, for the definition \<open>def\<close> at position \<open>i\<close>:
  \<open>this.layers[i-1]\<close> is \<open>undefined\<close> when fewer layers were pushed, and reading its
  \<open>out_sx\<close> throws a TypeError.
\<close>

definition create :: "('e, 'y) ext \<Rightarrow> (nat \<Rightarrow> real) \<Rightarrow> int \<times> opt \<Rightarrow>
    'e layer list \<times> nat \<times> string list \<Rightarrow> error + ('e layer list \<times> nat \<times> string list)" where
  "create X g idef s =
     (case idef of (i, def) \<Rightarrow>
        if i > 0
        then (case rd (fst s) (i - 1) of
                None \<Rightarrow> Inl TypeError
              | Some prev \<Rightarrow>
                  construct X g
                    (def\<lparr>o_in_sx := Some (out_sx X prev), o_in_sy := Some (out_sy X prev),
                          o_in_depth := Some (out_depth X prev)\<rparr>) s)
        else construct X g def s)"

text \<open>
  \<open>makeLayers(defs)\<close> returns nothing and sets \<open>this.layers\<close>; the model returns the net,
  the new position in the sample stream and the console log.
\<close>

definition makeLayers :: "('e, 'y) ext \<Rightarrow> (nat \<Rightarrow> real) \<Rightarrow> nat \<Rightarrow> 'e net \<Rightarrow> opt list \<Rightarrow>
    error + ('e net \<times> nat \<times> string list)" where
  "makeLayers X g i N defs =
     (if \<not> length defs \<ge> 2
      then Inl (Error ''Error! At least one input layer and one loss layer are required.'')
      else if \<not> o_type (defs ! 0) = ''input''
      then Inl (Error ''Error! First layer must be the input layer, to declare size of inputs'')
      else
        (case desugar defs of (defs', con) \<Rightarrow>
           (case foldE (create X g) (zip [0..int (length defs') - 1] defs') ([], i, con) of
              Inl e \<Rightarrow> Inl e
            | Inr (ls, i', con') \<Rightarrow> Inr (N\<lparr>layers := ls\<rparr>, i', con'))))"

subsection \<open>forward, backward, getParamsAndGrads, getPrediction\<close>

fun forward_layers :: "('e, 'y) ext \<Rightarrow> bool \<Rightarrow> 'e layer list \<Rightarrow> vol \<Rightarrow>
    error + ('e layer list \<times> vol)" where
  "forward_layers X is_training [] act = Inr ([], act)"
| "forward_layers X is_training (l # ls) act =
     (case layer_forward X l act is_training of Inl e \<Rightarrow> Inl e
      | Inr (l', act') \<Rightarrow>
          (case forward_layers X is_training ls act' of Inl e \<Rightarrow> Inl e
           | Inr (ls', out) \<Rightarrow> Inr (l' # ls', out)))"

text \<open>\<open>forward(V, is_training)\<close>: without layers, \<open>this.layers[0].forward\<close> throws.\<close>

definition net_forward :: "('e, 'y) ext \<Rightarrow> 'e net \<Rightarrow> vol \<Rightarrow> bool option \<Rightarrow>
    error + ('e net \<times> vol)" where
  "net_forward X N V is_training =
     (case layers N of
        [] \<Rightarrow> Inl TypeError
      | _ \<Rightarrow>
          (case forward_layers X (dflt is_training False) (layers N) V of Inl e \<Rightarrow> Inl e
           | Inr (ls, act) \<Rightarrow> Inr (N\<lparr>layers := ls\<rparr>, act)))"

text \<open>
  \<open>backward(y)\<close>: the last layer gets the target, the others run from \<open>N-2\<close> down to \<open>0\<close>.
  After a forward pass the output Vol of a layer is the very object that is the input
  Vol of the next layer; the gradient the next layer has written into its input is
  therefore put into this layer's output before its \<open>backward\<close> runs. The list is the
  layers below, nearest first.
\<close>

fun backward_layers :: "('e, 'y) ext \<Rightarrow> 'e layer list \<Rightarrow> vol option \<Rightarrow> error + 'e layer list" where
  "backward_layers X [] upper = Inr []"
| "backward_layers X (l # ls) upper =
     (case layer_backward X (case upper of None \<Rightarrow> l | Some A \<Rightarrow> put_out_act X l A) None of
        Inl e \<Rightarrow> Inl e
      | Inr (l', _) \<Rightarrow>
          (case backward_layers X ls (in_act X l') of Inl e \<Rightarrow> Inl e
           | Inr ls' \<Rightarrow> Inr (l' # ls')))"

definition net_backward :: "('e, 'y) ext \<Rightarrow> 'e net \<Rightarrow> 'y \<Rightarrow> error + ('e net \<times> real option)" where
  "net_backward X N y =
     (case rev (layers N) of
        [] \<Rightarrow> Inl TypeError
      | l # ls \<Rightarrow>
          (case layer_backward X l (Some y) of Inl e \<Rightarrow> Inl e
           | Inr (l', loss) \<Rightarrow>
               (case backward_layers X ls (in_act X l') of Inl e \<Rightarrow> Inl e
                | Inr ls' \<Rightarrow> Inr (N\<lparr>layers := rev (l' # ls')\<rparr>, loss))))"

definition net_getParamsAndGrads :: "'e net \<Rightarrow> error + pg list" where
  "net_getParamsAndGrads N =
     foldE (\<lambda>l response.
              case layer_getParamsAndGrads l of Inl e \<Rightarrow> Inl e
              | Inr layer_reponse \<Rightarrow> Inr (response @ layer_reponse))
       (layers N) []"

text \<open>
  \<open>getPrediction()\<close>: \<open>maxv\<close> is \<open>undefined\<close> when \<open>p\<close> is empty; a comparison with
  \<open>undefined\<close> is false.
\<close>

definition argmax_step :: "real list \<Rightarrow> int \<Rightarrow> real option \<times> int \<Rightarrow> real option \<times> int" where
  "argmax_step p i s =
     (case s of (maxv, maxi) \<Rightarrow>
        (case (rd p i, maxv) of
           (Some v, Some m) \<Rightarrow> if v > m then (Some v, i) else (maxv, maxi)
         | _ \<Rightarrow> (maxv, maxi)))"

definition getPrediction :: "('e, 'y) ext \<Rightarrow> 'e net \<Rightarrow> error + int" where
  "getPrediction X N =
     (case rd (layers N) (int (length (layers N)) - 1) of
        None \<Rightarrow> Inl TypeError
      | Some S \<Rightarrow>
          if \<not> layer_type X S = ''softmax''
          then Inl (Error ''getPrediction function assumes softmax as last layer of the net!'')
          else (case out_act X S of
                  None \<Rightarrow> Inl TypeError
                | Some A \<Rightarrow>
                    (let p = w A in
                     Inr (snd (fold (argmax_step p) [1..int (length p) - 1] (rd p 0, 0))))))"

section \<open>Trainer\<close>

record 'e trainer =
  t_net :: "'e net"
  t_learning_rate :: real
  t_l1_decay :: real
  t_l2_decay :: real
  t_batch_size :: int
  t_method :: string
  t_momentum :: real
  t_ro :: real
  t_eps :: real
  t_k :: int
  t_gsum :: "real list list"
  t_xsum :: "real list list"

text \<open>What \<open>train\<close> returns, without the two wall-clock times.\<close>

record train_result =
  r_l2_decay_loss :: real
  r_l1_decay_loss :: real
  r_cost_loss :: "real option"
  r_softmax_loss :: "real option"
  r_loss :: "real option"

text \<open>
  \<open>a % b\<close> on integers: NaN (\<open>None\<close>) for \<open>b = 0\<close>, otherwise the remainder of the
  truncating division, with the sign of \<open>a\<close>.
\<close>

definition js_rem :: "int \<Rightarrow> int \<Rightarrow> int option" where
  "js_rem a b = (if b = 0 then None else Some (sgn a * (\<bar>a\<bar> mod \<bar>b\<bar>)))"

text \<open>
  \<open>var gij = (l2grad + l1grad + g[j]) / this.batch_size\<close>, with the two lines before it;
  \<open>gj\<close> is \<open>g[j]\<close>, \<open>undefined\<close> past the end of \<open>g\<close>. In the trainer the decay rates of a
  group, the two decay gradients with their sum, and the two decay losses are formed
  over the reals; the addition of the raw gradient, the division by the batch size and
  the update rules are rounded like the arithmetic of the layers.
\<close>

definition gij :: "int \<Rightarrow> real \<Rightarrow> real \<Rightarrow> real \<Rightarrow> real option \<Rightarrow> real option" where
  "gij batch_size l1_decay l2_decay pj gj =
     (let l1grad = l1_decay * (if pj > 0 then 1 else -1);
          l2grad = l2_decay * pj
      in odiv (oadd (Some (l2grad + l1grad)) gj) (Some (real_of_int batch_size)))"

text \<open>
  The update of weight \<open>j\<close> of a group by the method of the trainer; \<open>gr\<close> is the value of
  \<open>gij\<close>. \<open>gsumi\<close> and \<open>xsumi\<close>
  are \<open>this.gsum[i]\<close> and \<open>this.xsum[i]\<close>, \<open>undefined\<close> (\<open>None\<close>) past the end of the lists;
  indexing \<open>undefined\<close> throws a TypeError.
\<close>

definition apply_rule :: "'e trainer \<Rightarrow> real option \<Rightarrow> int \<Rightarrow>
    real list \<times> real list option \<times> real list option \<Rightarrow>
    error + (real list \<times> real list option \<times> real list option)" where
  "apply_rule T gr j s =
     (case s of (p, gsumi, xsumi) \<Rightarrow>
      if t_method T = ''adagrad'' then
        (case gsumi of None \<Rightarrow> Inl TypeError
         | Some gs \<Rightarrow>
             (case store gs j (oadd (rd gs j) (omul gr gr)) of Inl e \<Rightarrow> Inl e
              | Inr gs' \<Rightarrow>
                  (let dx = omul (odiv (Some (- t_learning_rate T))
                                   (osqrt (oadd (rd gs' j) (Some (t_eps T))))) gr
                   in case add_to p j dx of Inl e \<Rightarrow> Inl e
                      | Inr p' \<Rightarrow> Inr (p', Some gs', xsumi))))
      else if t_method T = ''windowgrad'' then
        (case gsumi of None \<Rightarrow> Inl TypeError
         | Some gs \<Rightarrow>
             (case store gs j (oadd (omul (Some (t_ro T)) (rd gs j))
                                    (omul (omul (Some (1 - t_ro T)) gr) gr)) of
                Inl e \<Rightarrow> Inl e
              | Inr gs' \<Rightarrow>
                  (let dx = omul (odiv (Some (- t_learning_rate T))
                                   (osqrt (oadd (rd gs' j) (Some (t_eps T))))) gr
                   in case add_to p j dx of Inl e \<Rightarrow> Inl e
                      | Inr p' \<Rightarrow> Inr (p', Some gs', xsumi))))
      else if t_method T = ''adadelta'' then
        (case gsumi of None \<Rightarrow> Inl TypeError
         | Some gs \<Rightarrow>
             (case store gs j (oadd (omul (Some (t_ro T)) (rd gs j))
                                    (omul (omul (Some (1 - t_ro T)) gr) gr)) of
                Inl e \<Rightarrow> Inl e
              | Inr gs' \<Rightarrow>
                  (case xsumi of None \<Rightarrow> Inl TypeError
                   | Some xs \<Rightarrow>
                       (let dx = omul (osub (Some 0)
                                         (osqrt (odiv (oadd (rd xs j) (Some (t_eps T)))
                                                      (oadd (rd gs' j) (Some (t_eps T)))))) gr
                        in case store xs j (oadd (omul (Some (t_ro T)) (rd xs j))
                                                 (omul (omul (Some (1 - t_ro T)) dx) dx)) of
                             Inl e \<Rightarrow> Inl e
                           | Inr xs' \<Rightarrow>
                               (case add_to p j dx of Inl e \<Rightarrow> Inl e
                                | Inr p' \<Rightarrow> Inr (p', Some gs', Some xs'))))))
      else if t_method T = ''nesterov'' then
        (case gsumi of None \<Rightarrow> Inl TypeError
         | Some gs \<Rightarrow>
             (let dx0 = rd gs j in
              case store gs j (oadd (omul (rd gs j) (Some (t_momentum T)))
                                    (omul (Some (t_learning_rate T)) gr)) of
                Inl e \<Rightarrow> Inl e
              | Inr gs' \<Rightarrow>
                  (let dx = osub (omul (Some (t_momentum T)) dx0)
                                 (omul (Some (1.0 + t_momentum T)) (rd gs' j))
                   in case add_to p j dx of Inl e \<Rightarrow> Inl e
                      | Inr p' \<Rightarrow> Inr (p', Some gs', xsumi))))
      else if t_momentum T > 0.0 then
        (case gsumi of None \<Rightarrow> Inl TypeError
         | Some gs \<Rightarrow>
             (let dx = osub (omul (Some (t_momentum T)) (rd gs j))
                            (omul (Some (t_learning_rate T)) gr)
              in case store gs j dx of Inl e \<Rightarrow> Inl e
                 | Inr gs' \<Rightarrow>
                     (case add_to p j dx of Inl e \<Rightarrow> Inl e
                      | Inr p' \<Rightarrow> Inr (p', Some gs', xsumi))))
      else
        (case add_to p j (omul (Some (- t_learning_rate T)) gr) of Inl e \<Rightarrow> Inl e
         | Inr p' \<Rightarrow> Inr (p', gsumi, xsumi)))"

text \<open>
  The body of the loop over the weights of one group. The state is \<open>p\<close>, \<open>g\<close>, the two
  accumulators of the group and the two decay losses.
\<close>

definition update_weight :: "'e trainer \<Rightarrow> real \<Rightarrow> real \<Rightarrow> int \<Rightarrow>
    real list \<times> real list \<times> real list option \<times> real list option \<times> real \<times> real \<Rightarrow>
    error + (real list \<times> real list \<times> real list option \<times> real list option \<times> real \<times> real)" where
  "update_weight T l1_decay l2_decay j s =
     (case s of (p, g, gsumi, xsumi, l1_decay_loss, l2_decay_loss) \<Rightarrow>
        (case rd p j of
           None \<Rightarrow> Inl NonReal
         | Some pj \<Rightarrow>
             (let l2_decay_loss' = l2_decay_loss + l2_decay * pj * pj / 2;
                  l1_decay_loss' = l1_decay_loss + l1_decay * \<bar>pj\<bar>
              in case apply_rule T (gij (t_batch_size T) l1_decay l2_decay pj (rd g j)) j
                        (p, gsumi, xsumi) of
                   Inl e \<Rightarrow> Inl e
                 | Inr (p', gsumi', xsumi') \<Rightarrow>
                     (case store g j (Some 0.0) of Inl e \<Rightarrow> Inl e
                      | Inr g' \<Rightarrow>
                          Inr (p', g', gsumi', xsumi', l1_decay_loss', l2_decay_loss')))))"

text \<open>
  The body of the loop over the groups: the state is the list of groups, \<open>gsum\<close>, \<open>xsum\<close>
  and the two losses. The arrays of a group are those of the layer, so the updated group
  is put back into the list, and likewise the accumulators.
\<close>

definition update_group :: "'e trainer \<Rightarrow> int \<Rightarrow>
    pg list \<times> real list list \<times> real list list \<times> real \<times> real \<Rightarrow>
    error + (pg list \<times> real list list \<times> real list list \<times> real \<times> real)" where
  "update_group T i s =
     (case s of (pglist, gsum, xsum, l1_decay_loss, l2_decay_loss) \<Rightarrow>
        (case rd pglist i of
           None \<Rightarrow> Inl TypeError
         | Some pg \<Rightarrow>
             (let p = params pg;
                  g = grads pg;
                  l2_decay_mul = dflt (l2_decay_mul pg) 1.0;
                  l1_decay_mul = dflt (l1_decay_mul pg) 1.0;
                  l2_decay = t_l2_decay T * l2_decay_mul;
                  l1_decay = t_l1_decay T * l1_decay_mul;
                  plen = int (length p)
              in case foldE (update_weight T l1_decay l2_decay) [0..plen - 1]
                        (p, g, rd gsum i, rd xsum i, l1_decay_loss, l2_decay_loss) of
                   Inl e \<Rightarrow> Inl e
                 | Inr (p', g', gsumi, xsumi, l1', l2') \<Rightarrow>
                     Inr (pglist[nat i := pg\<lparr>params := p', grads := g'\<rparr>],
                          (case gsumi of None \<Rightarrow> gsum | Some gs \<Rightarrow> gsum[nat i := gs]),
                          (case xsumi of None \<Rightarrow> xsum | Some xs \<Rightarrow> xsum[nat i := xs]),
                          l1', l2'))))"

text \<open>The lists of accumulators, made on the first update that needs them.\<close>

definition init_accumulators :: "'e trainer \<Rightarrow> pg list \<Rightarrow> real list list \<times> real list list" where
  "init_accumulators T pglist =
     (if length (t_gsum T) = 0 \<and> (t_method T \<noteq> ''sgd'' \<or> t_momentum T > 0.0)
      then fold (\<lambda>pg (gsum, xsum).
                   (gsum @ [replicate (length (params pg)) 0],
                    if t_method T = ''adadelta''
                    then xsum @ [replicate (length (params pg)) 0]
                    else xsum @ [[]]))
             pglist (t_gsum T, t_xsum T)
      else (t_gsum T, t_xsum T))"

text \<open>
  The block run when \<open>k % batch_size === 0\<close>: it returns the updated groups, the
  accumulators and the two decay losses.
\<close>

definition update :: "'e trainer \<Rightarrow> pg list \<Rightarrow>
    error + (pg list \<times> real list list \<times> real list list \<times> real \<times> real)" where
  "update T pglist =
     (case init_accumulators T pglist of (gsum, xsum) \<Rightarrow>
        foldE (update_group T) [0..int (length pglist) - 1] (pglist, gsum, xsum, 0.0, 0.0))"

text \<open>
  The groups returned by \<open>getParamsAndGrads\<close> hold the arrays of the layers themselves,
  so the update of a group is an update of the layer. In the model the updated groups
  are written back, in the order in which \<open>getParamsAndGrads\<close> lists them.
\<close>

definition put_vol :: "vol \<Rightarrow> pg \<Rightarrow> vol" where
  "put_vol V pg = V\<lparr>w := params pg, dw := grads pg\<rparr>"

definition put_filters :: "vol list \<Rightarrow> pg list \<Rightarrow> vol list" where
  "put_filters fs pgs = map2 put_vol (take (length pgs) fs) pgs @ drop (length pgs) fs"

fun layer_putParamsAndGrads :: "'e layer \<Rightarrow> pg list \<Rightarrow> 'e layer \<times> pg list" where
  "layer_putParamsAndGrads (Conv L) pgs =
     (let n = nat (c_out_depth L) in
      case drop n pgs of
        [] \<Rightarrow> (Conv L, [])
      | b # rest \<Rightarrow>
          (Conv (L\<lparr>c_filters := put_filters (c_filters L) (take n pgs),
                   c_biases := put_vol (c_biases L) b\<rparr>), rest))"
| "layer_putParamsAndGrads (FC L) pgs =
     (let n = nat (f_out_depth L) in
      case drop n pgs of
        [] \<Rightarrow> (FC L, [])
      | b # rest \<Rightarrow>
          (FC (L\<lparr>f_filters := put_filters (f_filters L) (take n pgs),
                 f_biases := put_vol (f_biases L) b\<rparr>), rest))"
| "layer_putParamsAndGrads l pgs = (l, pgs)"

fun layers_putParamsAndGrads :: "'e layer list \<Rightarrow> pg list \<Rightarrow> 'e layer list" where
  "layers_putParamsAndGrads [] pgs = []"
| "layers_putParamsAndGrads (l # ls) pgs =
     (case layer_putParamsAndGrads l pgs of
        (l', rest) \<Rightarrow> l' # layers_putParamsAndGrads ls rest)"

text \<open>\<open>train(x, y)\<close>\<close>

definition train :: "('e, 'y) ext \<Rightarrow> 'e trainer \<Rightarrow> vol \<Rightarrow> 'y \<Rightarrow>
    error + ('e trainer \<times> train_result)" where
  "train X T x y =
     (case net_forward X (t_net T) x (Some True) of Inl e \<Rightarrow> Inl e
      | Inr (N1, act) \<Rightarrow>
     (case net_backward X N1 y of Inl e \<Rightarrow> Inl e
      | Inr (N2, cost_loss) \<Rightarrow>
     (let T1 = T\<lparr>t_net := N2, t_k := t_k T + 1\<rparr> in
      if js_rem (t_k T1) (t_batch_size T1) = Some 0
      then
        (case net_getParamsAndGrads N2 of Inl e \<Rightarrow> Inl e
         | Inr pglist \<Rightarrow>
        (case update T1 pglist of Inl e \<Rightarrow> Inl e
         | Inr (pglist', gsum, xsum, l1_decay_loss, l2_decay_loss) \<Rightarrow>
             Inr (T1\<lparr>t_net := N2\<lparr>layers := layers_putParamsAndGrads (layers N2) pglist'\<rparr>,
                     t_gsum := gsum, t_xsum := xsum\<rparr>,
                  \<lparr>r_l2_decay_loss = l2_decay_loss, r_l1_decay_loss = l1_decay_loss,
                   r_cost_loss = cost_loss, r_softmax_loss = cost_loss,
                   r_loss = oadd (oadd cost_loss (Some l1_decay_loss))
                              (Some l2_decay_loss)\<rparr>)))
      else
        Inr (T1, \<lparr>r_l2_decay_loss = 0.0, r_l1_decay_loss = 0.0,
                  r_cost_loss = cost_loss, r_softmax_loss = cost_loss,
                  r_loss = oadd (oadd cost_loss (Some 0.0)) (Some 0.0)\<rparr>))))"

section \<open>The convolution of the specification\<close>

text \<open>
  The filter coordinates that contribute to the window whose top-left input coordinate is
  \<open>(x, y)\<close>: all \<open>(fy, fx, fd)\<close> whose input coordinate \<open>(ox, oy) = (x + fx, y + fy)\<close> lies
  inside the input, \<open>fy\<close> outermost and \<open>fd\<close> innermost, which is the order in which
  \<open>forward\<close> visits them. A coordinate outside the input is not in the list.
\<close>

definition conv_coords :: "vol \<Rightarrow> vol \<Rightarrow> int \<Rightarrow> int \<Rightarrow> (int \<times> int \<times> int) list" where
  "conv_coords f V x y =
     [(fy, fx, fd). fy \<leftarrow> [0..sy f - 1], fx \<leftarrow> [0..sx f - 1],
                    y + fy \<ge> 0 \<and> y + fy < sy V \<and> x + fx \<ge> 0 \<and> x + fx < sx V,
                    fd \<leftarrow> [0..depth f - 1]]"

text \<open>
  The sum of the specification for that window in double arithmetic: starting from zero,
  the products \<open>filter.w[fy,fx,fd] * input.w[oy,ox,fd]\<close> are added one after the other in
  the order of the list and the bias \<open>b\<close> is added last; each product and each sum is
  rounded, and the value is \<open>None\<close> when one of them overflows.
\<close>

definition conv_value :: "vol \<Rightarrow> vol \<Rightarrow> int \<Rightarrow> int \<Rightarrow> real option \<Rightarrow> real option" where
  "conv_value f V x y b =
     oadd (fold (\<lambda>(fy, fx, fd) a. oadd a (omul (get f fx fy fd) (get V (x + fx) (y + fy) fd)))
             (conv_coords f V x y) (Some 0))
          b"

text \<open>
  A layer and an input that fit: the sizes are 32-bit integers, the buffers have the
  length of their shape, there is a filter and a bias for every output depth, and the
  filters have the depth of the input.
\<close>

definition conv_wf :: "conv_layer \<Rightarrow> vol \<Rightarrow> bool" where
  "conv_wf L V \<longleftrightarrow>
     0 \<le> sx V \<and> sx V < 2147483648 \<and> 0 \<le> sy V \<and> sy V < 2147483648
   \<and> int (length (w V)) = sx V * sy V * depth V
   \<and> - 2147483648 \<le> c_stride L \<and> c_stride L < 2147483648
   \<and> - 2147483648 < c_pad L \<and> c_pad L \<le> 2147483648
   \<and> 0 \<le> c_out_sx L \<and> c_out_sx L < 2147483648
   \<and> 0 \<le> c_out_sy L \<and> c_out_sy L < 2147483648
   \<and> 0 \<le> c_out_depth L \<and> c_out_depth L < 2147483648
   \<and> int (length (c_filters L)) = c_out_depth L
   \<and> (\<forall>f \<in> set (c_filters L).
          depth f = depth V \<and> int (length (w f)) = sx f * sy f * depth f)
   \<and> int (length (w (c_biases L))) = c_out_depth L"

section \<open>Pooling: a layer and an input that fit\<close>

text \<open>
  The buffer of the input has the length of its shape, the layer has the depth of the
  input, the output sizes are not negative, and the two switch arrays have one entry for
  each output cell, as the constructor makes them.
\<close>

definition pool_wf :: "pool_layer \<Rightarrow> vol \<Rightarrow> bool" where
  "pool_wf L V \<longleftrightarrow>
     0 \<le> sx V \<and> int (length (w V)) = sx V * sy V * depth V
   \<and> p_out_depth L = depth V
   \<and> 0 \<le> p_out_sx L \<and> 0 \<le> p_out_sy L \<and> 0 \<le> p_out_depth L
   \<and> int (length (p_switchx L)) = p_out_sx L * p_out_sy L * p_out_depth L
   \<and> int (length (p_switchy L)) = p_out_sx L * p_out_sy L * p_out_depth L"

text \<open>
  The value of the switch counter \<open>n\<close> at the output cell \<open>(ax, ay)\<close> of depth \<open>d\<close>: the loops
  run over \<open>d\<close>, then \<open>ax\<close>, then \<open>ay\<close>.
\<close>

definition switch_index :: "pool_layer \<Rightarrow> int \<Rightarrow> int \<Rightarrow> int \<Rightarrow> nat" where
  "switch_index L d ax ay = nat ((d * p_out_sx L + ax) * p_out_sy L + ay)"

text \<open>
  What \<open>dw[i] += g\<close> leaves in a cell that starts from zero, for the numbers \<open>g\<close> added to
  it in this order: each sum is rounded, and there is no value when one overflows.
\<close>

definition accumulate :: "real list \<Rightarrow> real option" where
  "accumulate gs = fold (\<lambda>g a. oadd a (Some g)) gs (Some 0)"

text \<open>
  The chain gradients that the backward pass of a pooling layer routes to the input cell
  \<open>(x, y)\<close> of depth \<open>d\<close>: those of the output cells \<open>(ax, ay)\<close> of that depth whose recorded
  switch is \<open>(x, y)\<close>, in the order of the loops (\<open>ax\<close>, then \<open>ay\<close>). \<open>L\<close> holds the switches
  and \<open>A\<close> is the output Vol with its gradients.
\<close>

definition routed :: "pool_layer \<Rightarrow> vol \<Rightarrow> int \<Rightarrow> int \<Rightarrow> int \<Rightarrow> real list" where
  "routed L A x y d =
     map (\<lambda>(ax, ay). dw A ! nat (ix A ax ay d))
       (filter (\<lambda>(ax, ay). p_switchx L ! switch_index L d ax ay = x
                          \<and> p_switchy L ! switch_index L d ax ay = y)
          (List.product [0..p_out_sx L - 1] [0..p_out_sy L - 1]))"

section \<open>The parameter buffers\<close>

text \<open>
  The parameter buffers of a layer and of a net are the \<open>params\<close> arrays of the groups
  that \<open>getParamsAndGrads\<close> returns; where it throws there are none to speak of, and the
  error is kept.
\<close>

definition layer_params :: "'e layer \<Rightarrow> error + real list list" where
  "layer_params l = map_sum id (map params) (layer_getParamsAndGrads l)"

definition net_params :: "'e net \<Rightarrow> error + real list list" where
  "net_params N = map_sum id (map params) (net_getParamsAndGrads N)"

text \<open>
  What \<open>A.set(ax, ay, d, a)\<close> does when it stores a number: it replaces one cell of \<open>w\<close>;
  an index outside the array leaves it as it is.
\<close>

definition put_cell :: "vol \<Rightarrow> int \<Rightarrow> int \<Rightarrow> int \<Rightarrow> real \<Rightarrow> vol" where
  "put_cell A ax ay d a =
     A\<lparr>w := (if 0 \<le> ix A ax ay d \<and> ix A ax ay d < int (length (w A))
             then (w A)[nat (ix A ax ay d) := a] else w A)\<rparr>"

text \<open>
  The value the scan of a window compares at the coordinate \<open>(ox, oy)\<close>: none outside the
  input, where the scan skips the coordinate.
\<close>

definition window_value :: "vol \<Rightarrow> int \<Rightarrow> int \<Rightarrow> int \<Rightarrow> real option" where
  "window_value V d ox oy =
     (if oy \<ge> 0 \<and> oy < sy V \<and> ox \<ge> 0 \<and> ox < sx V then get V ox oy d else None)"

section \<open>Example values\<close>

text \<open>Small concrete layers and trainers, at which the theorems below are instantiated.\<close>

definition ex_conv :: conv_layer where
  "ex_conv = \<lparr>c_out_depth = 1, c_sx = 1, c_in_depth = 1, c_in_sx = 1, c_in_sy = 1, c_sy = 1,
     c_stride = 1, c_pad = 0, c_l1_decay_mul = 1/2, c_l2_decay_mul = 1, c_out_sx = 1,
     c_out_sy = 1, c_layer_type = ''conv'',
     c_filters = [\<lparr>sx = 1, sy = 1, depth = 1, w = [2], dw = [0]\<rparr>],
     c_biases = \<lparr>sx = 1, sy = 1, depth = 1, w = [3], dw = [0]\<rparr>,
     c_in_act = None, c_out_act = None\<rparr>"

definition ex_fc :: fc_layer where
  "ex_fc = \<lparr>f_out_depth = 1, f_l1_decay_mul = 1/2, f_l2_decay_mul = 1, f_num_inputs = 1,
     f_out_sx = 1, f_out_sy = 1, f_layer_type = ''fc'',
     f_filters = [\<lparr>sx = 1, sy = 1, depth = 1, w = [0], dw = [0]\<rparr>],
     f_biases = \<lparr>sx = 1, sy = 1, depth = 1, w = [3], dw = [0]\<rparr>,
     f_in_act = None, f_out_act = None\<rparr>"

definition ex_trainer :: "'e net \<Rightarrow> 'e trainer" where
  "ex_trainer N = \<lparr>t_net = N, t_learning_rate = 1, t_l1_decay = 1, t_l2_decay = 1,
     t_batch_size = 1, t_method = ''sgd'', t_momentum = 0, t_ro = 95/100, t_eps = 1/1000000,
     t_k = 0, t_gsum = [], t_xsum = []\<rparr>"

text \<open>
  An instance of the operations of the layers outside this core: a layer is its type tag
  and its stored output, and passes its input through.
\<close>

definition ex_ext :: "(string \<times> vol option, nat) ext" where
  "ex_ext = \<lparr>e_new = (\<lambda>d. Inr (o_type d, None)),
     e_layer_type = fst,
     e_out_sx = (\<lambda>e. 1), e_out_sy = (\<lambda>e. 1), e_out_depth = (\<lambda>e. 1),
     e_in_act = snd, e_out_act = snd,
     e_put_out_act = (\<lambda>e A. (fst e, Some A)),
     e_forward = (\<lambda>e V is_training. Inr ((fst e, Some V), V)),
     e_backward = (\<lambda>e y. Inr (e, None))\<rparr>"

definition ex_gauss :: "nat \<Rightarrow> real" where
  "ex_gauss n = 0"



text \<open>
  A pooling layer with a \<open>2 \<times> 2\<close> window over a \<open>2 \<times> 2 \<times> 1\<close> input whose largest value \<open>3\<close>
  occurs twice, at \<open>(0, 1)\<close>, scanned first, and at \<open>(1, 0)\<close>.
\<close>

definition ex_pool :: pool_layer where
  "ex_pool = \<lparr>p_sx = 2, p_in_depth = 1, p_in_sx = 2, p_in_sy = 2, p_sy = 2, p_stride = 2,
     p_pad = 0, p_out_depth = 1, p_out_sx = 1, p_out_sy = 1, p_layer_type = ''pool'',
     p_switchx = [0], p_switchy = [0], p_in_act = None, p_out_act = None\<rparr>"

definition ex_pool_input :: vol where
  "ex_pool_input = \<lparr>sx = 2, sy = 2, depth = 1, w = [1, 3, 3, 2], dw = [0, 0, 0, 0]\<rparr>"

text \<open>An input for the same layer with all values below \<open>-99999\<close>.\<close>

definition ex_low_input :: vol where
  "ex_low_input = \<lparr>sx = 2, sy = 2, depth = 1, w = [-100000, -200000, -150000, -120000],
                    dw = [0, 0, 0, 0]\<rparr>"

text \<open>
  A row filter whose first weight is \<open>10^16\<close>, where the doubles are two apart, and a
  pooling layer with padding whose four windows all hold the single input cell.
\<close>

definition ex_conv_row :: conv_layer where
  "ex_conv_row = \<lparr>c_out_depth = 1, c_sx = 3, c_in_depth = 1, c_in_sx = 3, c_in_sy = 1,
     c_sy = 1, c_stride = 1, c_pad = 0, c_l1_decay_mul = 0, c_l2_decay_mul = 1,
     c_out_sx = 1, c_out_sy = 1, c_layer_type = ''conv'',
     c_filters = [\<lparr>sx = 3, sy = 1, depth = 1, w = [10000000000000000, 1, 1], dw = [0, 0, 0]\<rparr>],
     c_biases = \<lparr>sx = 1, sy = 1, depth = 1, w = [0], dw = [0]\<rparr>,
     c_in_act = None, c_out_act = None\<rparr>"

definition ex_ones :: vol where
  "ex_ones = \<lparr>sx = 3, sy = 1, depth = 1, w = [1, 1, 1], dw = [0, 0, 0]\<rparr>"

definition ex_pool_overlap :: pool_layer where
  "ex_pool_overlap = \<lparr>p_sx = 2, p_in_depth = 1, p_in_sx = 1, p_in_sy = 1, p_sy = 2, p_stride = 1,
     p_pad = 1, p_out_depth = 1, p_out_sx = 2, p_out_sy = 2, p_layer_type = ''pool'',
     p_switchx = [0, 0, 0, 0], p_switchy = [0, 0, 0, 0], p_in_act = None, p_out_act = None\<rparr>"

definition ex_unit_input :: vol where
  "ex_unit_input = \<lparr>sx = 1, sy = 1, depth = 1, w = [7], dw = [0]\<rparr>"

section \<open>Properties\<close>

subsection \<open>Rounding\<close>

lemma rne_int: "rne (of_int n) = n"
  by (simp add: rne_def)

lemma rne_cases: "rne r = \<lfloor>r\<rfloor> \<or> rne r = \<lfloor>r\<rfloor> + 1"
  by (simp add: rne_def Let_def)

lemma rne_err: "\<bar>of_int (rne r) - r\<bar> \<le> 1/2"
proof -
  have b: "of_int \<lfloor>r\<rfloor> \<le> r" "r < of_int \<lfloor>r\<rfloor> + 1" by linarith+
  consider "r - of_int \<lfloor>r\<rfloor> < 1/2" | "1/2 < r - of_int \<lfloor>r\<rfloor>" | "r - of_int \<lfloor>r\<rfloor> = 1/2"
    by linarith
  then show ?thesis
  proof cases
    case 1
    then have "rne r = \<lfloor>r\<rfloor>" by (simp add: rne_def Let_def)
    then show ?thesis using 1 b by simp
  next
    case 2
    then have "rne r = \<lfloor>r\<rfloor> + 1" by (simp add: rne_def Let_def)
    then show ?thesis using 2 b by simp
  next
    case 3
    from rne_cases[of r] show ?thesis
    proof
      assume "rne r = \<lfloor>r\<rfloor>" then show ?thesis using 3 by simp
    next
      assume "rne r = \<lfloor>r\<rfloor> + 1" then show ?thesis using 3 by simp
    qed
  qed
qed

lemma rne_mono:
  assumes "r \<le> r'" shows "rne r \<le> rne r'"
proof (rule ccontr)
  assume "\<not> rne r \<le> rne r'"
  then have g: "rne r' + 1 \<le> rne r" by simp
  then have gr: "of_int (rne r') + 1 \<le> (of_int (rne r) :: real)" by linarith
  have e: "\<bar>of_int (rne r) - r\<bar> \<le> 1/2" "\<bar>of_int (rne r') - r'\<bar> \<le> 1/2" by (rule rne_err)+
  from e gr assms have "r = r'" by linarith
  with g show False by simp
qed

lemma floor_minus_nonint:
  fixes r :: real
  assumes "r \<noteq> of_int \<lfloor>r\<rfloor>"
  shows "\<lfloor>- r\<rfloor> = - \<lfloor>r\<rfloor> - 1"
proof -
  have lt: "of_int \<lfloor>r\<rfloor> < r" "r < of_int \<lfloor>r\<rfloor> + 1" using assms by linarith+
  show ?thesis
  proof (rule floor_unique)
    show "of_int (- \<lfloor>r\<rfloor> - 1) \<le> - r"
      unfolding of_int_diff of_int_minus of_int_1 using lt(2) by linarith
    show "- r < of_int (- \<lfloor>r\<rfloor> - 1) + 1"
      unfolding of_int_diff of_int_minus of_int_1 using lt(1) by linarith
  qed
qed

lemma rne_minus: "rne (- r) = - rne r"
proof (cases "r = of_int \<lfloor>r\<rfloor>")
  case True
  then obtain n where n: "r = of_int n" by blast
  have "rne (of_int (- n)) = - n" by (rule rne_int)
  then show ?thesis by (simp add: n rne_int)
next
  case False
  note f = floor_minus_nonint[OF False]
  have lt: "of_int \<lfloor>r\<rfloor> < r" "r < of_int \<lfloor>r\<rfloor> + 1" using False by linarith+
  consider "r - of_int \<lfloor>r\<rfloor> < 1/2" | "1/2 < r - of_int \<lfloor>r\<rfloor>" | "r - of_int \<lfloor>r\<rfloor> = 1/2"
    by linarith
  then show ?thesis
  proof cases
    case 1
    then have "rne r = \<lfloor>r\<rfloor>" by (simp add: rne_def Let_def)
    moreover have "rne (- r) = - \<lfloor>r\<rfloor>" using 1 by (simp add: rne_def Let_def f)
    ultimately show ?thesis by simp
  next
    case 2
    then have "rne r = \<lfloor>r\<rfloor> + 1" by (simp add: rne_def Let_def)
    moreover have "rne (- r) = - \<lfloor>r\<rfloor> - 1" using 2 by (simp add: rne_def Let_def f)
    ultimately show ?thesis by simp
  next
    case 3
    then have "rne r = (if even \<lfloor>r\<rfloor> then \<lfloor>r\<rfloor> else \<lfloor>r\<rfloor> + 1)" by (simp add: rne_def Let_def)
    moreover have "rne (- r) = (if even \<lfloor>r\<rfloor> then - \<lfloor>r\<rfloor> else - \<lfloor>r\<rfloor> - 1)"
      using 3 by (simp add: rne_def Let_def f)
    ultimately show ?thesis by simp
  qed
qed


lemma rne_nonneg: "0 \<le> r \<Longrightarrow> 0 \<le> rne r"
  using rne_mono[of 0 r] rne_int[of 0] by simp

lemma two_powr_pos: "0 < (2::real) powr y"
  by simp

lemma binade_upper:
  assumes "x \<noteq> 0"
  shows "\<bar>x\<bar> < 2 powr of_int (ulp_exp x + 53)"
proof -
  have p: "0 < \<bar>x\<bar>" using assms by simp
  have "\<bar>x\<bar> < 2 powr of_int (\<lfloor>log 2 \<bar>x\<bar>\<rfloor> + 1)"
    using floor_log_eq_powr_iff[of "\<bar>x\<bar>" 2 "\<lfloor>log 2 \<bar>x\<bar>\<rfloor>"] p by simp
  also have "\<dots> \<le> 2 powr of_int (ulp_exp x + 53)"
    by (rule powr_mono) (simp_all add: ulp_exp_def)
  finally show ?thesis .
qed

lemma binade_lower:
  assumes "x \<noteq> 0" and "- 1074 < ulp_exp x"
  shows "2 powr of_int (ulp_exp x + 52) \<le> \<bar>x\<bar>"
proof -
  have p: "0 < \<bar>x\<bar>" using assms by simp
  have e: "ulp_exp x + 52 = \<lfloor>log 2 \<bar>x\<bar>\<rfloor>" using assms(2) by (simp add: ulp_exp_def max_def split: if_splits)
  show ?thesis
    unfolding e using floor_log_eq_powr_iff[of "\<bar>x\<bar>" 2 "\<lfloor>log 2 \<bar>x\<bar>\<rfloor>"] p by simp
qed

lemma ulp_exp_mono:
  assumes "x \<noteq> 0" and "\<bar>x\<bar> \<le> \<bar>x'\<bar>"
  shows "ulp_exp x \<le> ulp_exp x'"
proof -
  have "log 2 \<bar>x\<bar> \<le> log 2 \<bar>x'\<bar>" using assms by (intro log_mono) simp_all
  then have "\<lfloor>log 2 \<bar>x\<bar>\<rfloor> \<le> \<lfloor>log 2 \<bar>x'\<bar>\<rfloor>" by (rule floor_mono)
  then show ?thesis by (simp add: ulp_exp_def)
qed

lemma ulp_exp_minus: "ulp_exp (- x) = ulp_exp x"
  by (simp add: ulp_exp_def)

lemma ulp_exp_ge: "- 1074 \<le> ulp_exp x"
  by (simp add: ulp_exp_def)

lemma ulp_exp_eq:
  assumes "2 powr of_int k \<le> \<bar>x\<bar>" "\<bar>x\<bar> < 2 powr of_int (k + 1)" "- 1022 \<le> k"
  shows "ulp_exp x = k - 52"
proof -
  have p: "0 < \<bar>x\<bar>" using assms(1) two_powr_pos[of "of_int k"] by linarith
  have "\<lfloor>log 2 \<bar>x\<bar>\<rfloor> = k"
    using floor_log_eq_powr_iff[of "\<bar>x\<bar>" 2 k] p assms(1,2) by simp
  then show ?thesis using assms(3) by (simp add: ulp_exp_def)
qed

lemma fl_val_0: "fl_val 0 = 0"
  by (simp add: fl_val_def rne_int[of 0, simplified])

lemma fl_val_minus: "fl_val (- x) = - fl_val x"
  by (simp add: fl_val_def ulp_exp_minus rne_minus)

lemma fl_val_nonneg: "0 \<le> x \<Longrightarrow> 0 \<le> fl_val x"
  by (simp add: fl_val_def rne_nonneg)

lemma fl_val_upper:
  assumes "0 < x"
  shows "fl_val x \<le> 2 powr of_int (ulp_exp x + 53)"
proof -
  let ?u = "2 powr of_int (ulp_exp x) :: real"
  have u: "0 < ?u" by simp
  have "x < 2 powr of_int (ulp_exp x + 53)" using binade_upper[of x] assms by simp
  also have "\<dots> = of_int (2 ^ 53) * ?u" by (simp add: powr_add)
  finally have "x / ?u \<le> of_int (2 ^ 53)" using u by (simp add: field_simps)
  then have "rne (x / ?u) \<le> rne (of_int (2 ^ 53))" by (rule rne_mono)
  then have "rne (x / ?u) \<le> 2 ^ 53" by (simp only: rne_int)
  then have "(of_int (rne (x / ?u)) :: real) \<le> of_int (2 ^ 53)" by (simp only: of_int_le_iff)
  then have "of_int (rne (x / ?u)) * ?u \<le> of_int (2 ^ 53) * ?u" using u by (simp only: mult_le_cancel_right_pos)
  then show ?thesis by (simp add: fl_val_def powr_add)
qed

lemma fl_val_lower:
  assumes "0 < x" and "- 1074 < ulp_exp x"
  shows "2 powr of_int (ulp_exp x + 52) \<le> fl_val x"
proof -
  let ?u = "2 powr of_int (ulp_exp x) :: real"
  have u: "0 < ?u" by simp
  have "of_int (2 ^ 52) * ?u = 2 powr of_int (ulp_exp x + 52)" by (simp add: powr_add)
  also have "\<dots> \<le> x" using binade_lower[of x] assms by simp
  finally have "of_int (2 ^ 52) \<le> x / ?u" using u by (simp add: field_simps)
  then have "rne (of_int (2 ^ 52)) \<le> rne (x / ?u)" by (rule rne_mono)
  then have "2 ^ 52 \<le> rne (x / ?u)" by (simp only: rne_int)
  then have "(of_int (2 ^ 52) :: real) \<le> of_int (rne (x / ?u))" by (simp only: of_int_le_iff)
  then have "of_int (2 ^ 52) * ?u \<le> of_int (rne (x / ?u)) * ?u" using u by (simp only: mult_le_cancel_right_pos)
  then show ?thesis by (simp add: fl_val_def powr_add)
qed

lemma fl_val_mono_pos:
  assumes "0 < x" "x \<le> x'"
  shows "fl_val x \<le> fl_val x'"
proof -
  have x': "0 < x'" using assms by simp
  have le: "ulp_exp x \<le> ulp_exp x'" using assms by (intro ulp_exp_mono) simp_all
  show ?thesis
  proof (cases "ulp_exp x = ulp_exp x'")
    case True
    let ?u = "2 powr of_int (ulp_exp x) :: real"
    have "x / ?u \<le> x' / ?u" using assms(2) by (simp add: divide_right_mono)
    then have "rne (x / ?u) \<le> rne (x' / ?u)" by (rule rne_mono)
    then have "(of_int (rne (x / ?u)) :: real) \<le> of_int (rne (x' / ?u))" by simp
    then have "of_int (rne (x / ?u)) * ?u \<le> of_int (rne (x' / ?u)) * ?u"
      by (simp only: mult_le_cancel_right_pos two_powr_pos)
    then show ?thesis by (simp add: fl_val_def True[symmetric])
  next
    case False
    then have lt: "ulp_exp x + 1 \<le> ulp_exp x'" using le by simp
    have g: "- 1074 < ulp_exp x'" using lt ulp_exp_ge[of x] by linarith
    have "fl_val x \<le> 2 powr of_int (ulp_exp x + 53)" by (rule fl_val_upper) fact
    also have "\<dots> \<le> 2 powr of_int (ulp_exp x' + 52)" using lt by (intro powr_mono) simp_all
    also have "\<dots> \<le> fl_val x'" using x' g by (rule fl_val_lower)
    finally show ?thesis .
  qed
qed

lemma fl_val_mono:
  assumes "x \<le> x'"
  shows "fl_val x \<le> fl_val x'"
proof -
  consider "0 < x" | "x \<le> 0" "0 \<le> x'" | "x' < 0" using assms by linarith
  then show ?thesis
  proof cases
    case 1
    then show ?thesis using assms by (rule fl_val_mono_pos)
  next
    case 2
    have "fl_val x = - fl_val (- x)" by (simp add: fl_val_minus)
    moreover have "0 \<le> fl_val (- x)" using 2(1) by (intro fl_val_nonneg) simp
    moreover have "0 \<le> fl_val x'" using 2(2) by (rule fl_val_nonneg)
    ultimately show ?thesis by linarith
  next
    case 3
    have "fl_val (- x') \<le> fl_val (- x)" using 3 assms by (intro fl_val_mono_pos) simp_all
    then show ?thesis by (simp add: fl_val_minus)
  qed
qed

lemma is_double_iff: "is_double x \<longleftrightarrow> fl_val x = x \<and> \<bar>x\<bar> < 2 ^ 1024"
  by (auto simp: is_double_def fl_def split: if_splits)

lemma fl_between:
  assumes "is_double a" "is_double b" "a \<le> x" "x \<le> b"
  shows "\<exists>y. fl x = Some y \<and> a \<le> y \<and> y \<le> b"
proof -
  have a: "fl_val a = a" "\<bar>a\<bar> < 2 ^ 1024" and b: "fl_val b = b" "\<bar>b\<bar> < 2 ^ 1024"
    using assms(1,2) by (simp_all add: is_double_iff)
  have 1: "a \<le> fl_val x" using fl_val_mono[OF assms(3)] a(1) by simp
  have 2: "fl_val x \<le> b" using fl_val_mono[OF assms(4)] b(1) by simp
  have "\<bar>fl_val x\<bar> < 2 ^ 1024" using 1 2 a(2) b(2) by linarith
  then show ?thesis using 1 2 by (simp add: fl_def)
qed

lemma fl_val_dyadic:
  assumes "\<bar>m\<bar> < 2 ^ 53" "- 1074 \<le> p"
  shows "fl_val (of_int m * 2 powr of_int p) = of_int m * 2 powr of_int p"
proof (cases "m = 0")
  case True
  then show ?thesis by (simp add: fl_val_0)
next
  case False
  let ?x = "of_int m * 2 powr of_int p :: real"
  let ?e = "ulp_exp ?x"
  have x0: "?x \<noteq> 0" using False by simp
  have ax: "\<bar>?x\<bar> = of_int \<bar>m\<bar> * 2 powr of_int p" by (simp add: abs_mult)
  have "(of_int \<bar>m\<bar> :: real) < of_int (2 ^ 53)" using assms(1) by (simp only: of_int_less_iff)
  then have "\<bar>?x\<bar> < of_int (2 ^ 53) * 2 powr of_int p"
    unfolding ax by (simp only: mult_less_cancel_right_pos two_powr_pos)
  also have "\<dots> = 2 powr of_int (p + 53)" by (simp add: powr_add)
  finally have up: "\<bar>?x\<bar> < 2 powr of_int (p + 53)" .
  have "2 powr of_int \<lfloor>log 2 \<bar>?x\<bar>\<rfloor> \<le> \<bar>?x\<bar>"
    using floor_log_eq_powr_iff[of "\<bar>?x\<bar>" 2 "\<lfloor>log 2 \<bar>?x\<bar>\<rfloor>"] x0 by simp
  with up have "(2::real) powr of_int \<lfloor>log 2 \<bar>?x\<bar>\<rfloor> < 2 powr of_int (p + 53)" by linarith
  then have "\<lfloor>log 2 \<bar>?x\<bar>\<rfloor> < p + 53" by simp
  then have le0: "ulp_exp ?x \<le> p" using assms(2) by (simp add: ulp_exp_def)
  define e where "e = ulp_exp ?x"
  define k where "k = nat (p - e)"
  have le: "e \<le> p" using le0 by (simp add: e_def)
  have "real_of_int p = of_int e + of_nat k" using le by (simp add: k_def)
  then have "(2::real) powr (real_of_int p) = 2 powr (of_int e + of_nat k)" by (rule arg_cong)
  also have "\<dots> = 2 powr of_int e * 2 powr of_nat k" by (rule powr_add)
  also have "\<dots> = 2 powr of_int e * 2 ^ k" by (simp add: powr_realpow)
  finally have pe: "(2::real) powr (real_of_int p) = 2 powr of_int e * 2 ^ k" .
  have q: "?x / 2 powr of_int e = of_int (m * 2 ^ k)"
    unfolding pe by simp
  have "fl_val ?x = of_int (rne (?x / 2 powr of_int e)) * 2 powr of_int e"
    by (simp only: fl_val_def e_def)
  also have "\<dots> = of_int (m * 2 ^ k) * 2 powr of_int e"
    by (simp only: q rne_int)
  also have "\<dots> = ?x / 2 powr of_int e * 2 powr of_int e" by (simp only: q)
  also have "\<dots> = ?x" by simp
  finally show ?thesis .
qed

lemma fl_minus: "fl (- x) = (case fl x of None \<Rightarrow> None | Some y \<Rightarrow> Some (- y))"
  by (simp add: fl_def fl_val_minus)

lemma is_double_dyadic:
  assumes "\<bar>m\<bar> < 2 ^ 53" "- 1074 \<le> p" "p \<le> 971"
  shows "is_double (of_int m * 2 powr of_int p)"
proof -
  have "\<bar>of_int m * 2 powr of_int p :: real\<bar> = of_int \<bar>m\<bar> * 2 powr of_int p" by (simp add: abs_mult)
  also have "\<dots> \<le> of_int \<bar>m\<bar> * 2 powr of_int 971"
    using assms(3) by (intro mult_left_mono powr_mono) simp_all
  also have "\<dots> < of_int (2 ^ 53) * 2 powr of_int 971"
    using assms(1) by (simp only: mult_less_cancel_right_pos two_powr_pos of_int_less_iff)
  also have "\<dots> = 2 ^ 1024" by (simp add: powr_realpow[symmetric] powr_add[symmetric])
  finally show ?thesis
    using fl_val_dyadic[OF assms(1,2)] by (simp add: is_double_iff)
qed

lemma is_double_int: "\<bar>n\<bar> \<le> 2 ^ 53 \<Longrightarrow> is_double (of_int n)"
proof (cases "\<bar>n\<bar> = 2 ^ 53")
  case True
  have "is_double (of_int 1 * 2 powr of_int 53)" by (rule is_double_dyadic) simp_all
  then have p: "is_double (2 ^ 53)" by (simp add: powr_realpow[symmetric])
  then have "is_double (- (2 ^ 53))" by (simp add: is_double_def fl_minus)
  moreover have "n = 2 ^ 53 \<or> n = - (2 ^ 53)" using True by linarith
  ultimately show ?thesis using p by auto
next
  case False
  assume "\<bar>n\<bar> \<le> 2 ^ 53"
  with False have "\<bar>n\<bar> < 2 ^ 53" by simp
  then have "is_double (of_int n * 2 powr of_int 0)" by (rule is_double_dyadic) simp_all
  then show ?thesis by simp
qed

lemma is_double_frac:
  assumes "\<bar>n\<bar> < 2 ^ 53" "j \<le> 1074"
  shows "is_double (of_int n / 2 ^ j)"
proof -
  have "is_double (of_int n * 2 powr of_int (- int j))"
    using assms by (intro is_double_dyadic) simp_all
  then show ?thesis by (simp add: powr_minus powr_realpow field_simps)
qed

lemma fl_int: "\<bar>n\<bar> \<le> 2 ^ 53 \<Longrightarrow> fl (of_int n) = Some (of_int n)"
  using is_double_int[of n] by (simp add: is_double_def)

lemma fl_0: "fl 0 = Some 0"
  using fl_int[of 0] by simp

lemma fl_1: "fl 1 = Some 1"
  using fl_int[of 1] by simp

lemma fl_numeral: "(numeral k :: int) \<le> 2 ^ 53 \<Longrightarrow> fl (numeral k) = Some (numeral k)"
  using fl_int[of "numeral k"] by simp

lemma fl_half: "(numeral k :: int) < 2 ^ 53 \<Longrightarrow> fl (numeral k / 2) = Some (numeral k / 2)"
  using is_double_frac[of "numeral k" 1] by (simp add: is_double_def)

lemma fl_one_half: "fl (1 / 2) = Some (1 / 2)"
  using is_double_frac[of 1 1] by (simp add: is_double_def)

lemmas fl_eval = fl_0 fl_1 fl_numeral fl_half fl_one_half fl_minus

lemma ulp_exp_nat:
  assumes "2 ^ k \<le> x" "x < 2 ^ Suc k"
  shows "ulp_exp x = int k - 52"
proof -
  have x: "0 < x" using assms(1) by (smt (verit) zero_less_power)
  have a: "(2::real) powr of_int (int k) = 2 ^ k" using powr_realpow[of 2 k] by simp
  have "real_of_int (int k + 1) = real (Suc k)" by simp
  then have b: "(2::real) powr of_int (int k + 1) = 2 ^ Suc k"
    using powr_realpow[of 2 "Suc k"] by (simp only:)
  have ax: "\<bar>x\<bar> = x" using x by simp
  show ?thesis
  proof (rule ulp_exp_eq)
    show "2 powr real_of_int (int k) \<le> \<bar>x\<bar>" unfolding a ax by (rule assms(1))
    show "\<bar>x\<bar> < 2 powr real_of_int (int k + 1)" unfolding b ax by (rule assms(2))
    show "- 1022 \<le> int k" by simp
  qed
qed

lemma fl_large:
  assumes "2 ^ k \<le> x" "x < 2 ^ Suc k" "52 \<le> k" "k < 1023"
  shows "fl x = Some (of_int (rne (x / 2 ^ (k - 52))) * 2 ^ (k - 52))"
proof -
  have x: "0 < x" using assms(1) by (smt (verit) zero_less_power)
  have e: "ulp_exp x = int k - 52" using assms(1,2) by (rule ulp_exp_nat)
  have p: "(2::real) powr of_int (int k - 52) = 2 ^ (k - 52)"
    using assms(3) powr_realpow[of 2 "k - 52"] by (simp add: of_nat_diff)
  have v: "fl_val x = of_int (rne (x / 2 ^ (k - 52))) * 2 ^ (k - 52)"
    by (simp only: fl_val_def e p)
  have "fl_val x \<le> 2 powr of_int (ulp_exp x + 53)" using x by (rule fl_val_upper)
  also have "\<dots> = 2 powr of_int (int (Suc k))" by (simp add: e)
  also have "\<dots> = 2 ^ Suc k" using powr_realpow[of 2 "Suc k"] by simp
  also have "\<dots> < (2::real) ^ 1024" using assms(4) by (intro power_strict_increasing) simp_all
  finally have "fl_val x < 2 ^ 1024" .
  moreover have "0 \<le> fl_val x" using x by (intro fl_val_nonneg) simp
  ultimately show ?thesis by (simp add: fl_def v[symmetric])
qed


lemma fl_tie_example: "fl 10000000000000001 = Some 10000000000000000"
  using fl_large[of 53 10000000000000001] by (simp add: rne_def Let_def)

lemma fl_big_example: "fl 10000000000000000 = Some 10000000000000000"
  using fl_large[of 53 10000000000000000] by (simp add: rne_def Let_def)

subsection \<open>Loops\<close>

lemma upto_conv_map: "[0..n - 1] = map int [0..<nat n]"
  by (rule nth_equalityI) (auto simp: nth_upto)

lemma foldE_map: "foldE f (map h xs) s = foldE (\<lambda>x. f (h x)) xs s"
  by (induction xs arbitrary: s) (auto split: sum.splits)

lemma foldE_append:
  "foldE f (xs @ ys) s = (case foldE f xs s of Inl e \<Rightarrow> Inl e | Inr s' \<Rightarrow> foldE f ys s')"
  by (induction xs arbitrary: s) (auto split: sum.splits)

lemma upto_small: "[0..0] = [0]" "[0..1] = [0, 1]" "[0..2] = [0, 1, 2]" "[1..0] = []"
  "[1..1] = [1]" "[1..2] = [1, 2]" "[0..-1] = []"
  by (simp_all add: upto.simps)

subsection \<open>Vol: serialisation\<close>

lemma copy_loop:
  "length tw = length jw \<Longrightarrow> m \<le> length jw \<Longrightarrow>
   foldE (\<lambda>i tw. store tw (int i) (rd jw (int i))) [m..<length jw] tw
     = Inr (take m tw @ drop m jw)"
proof (induction "length jw - m" arbitrary: m tw)
  case 0
  then show ?case by simp
next
  case (Suc n)
  then have m: "m < length jw" by linarith
  have upt: "[m..<length jw] = m # [Suc m..<length jw]"
    using m by (simp add: upt_conv_Cons)
  have step: "foldE (\<lambda>i tw. store tw (int i) (rd jw (int i))) [Suc m..<length jw] (tw[m := jw ! m])
      = Inr (take (Suc m) (tw[m := jw ! m]) @ drop (Suc m) jw)"
    using Suc.hyps(1)[of "Suc m" "tw[m := jw ! m]"] Suc.hyps(2) Suc.prems m by simp
  have "take (Suc m) (tw[m := jw ! m]) @ drop (Suc m) jw = take m tw @ drop m jw"
    using m Suc.prems(1)
    by (simp add: take_Suc_conv_app_nth Cons_nth_drop_Suc)
  then show ?case
    using step m Suc.prems(1) by (simp add: upt rd_def store_def)
qed

text \<open>
  C9. For a tensor whose value buffer has the length \<open>sx * sy * depth\<close> of its shape,
  \<open>toJSON\<close> followed by \<open>fromJSON\<close> (into any Vol \<open>this\<close>) gives back the same \<open>sx\<close>, \<open>sy\<close>,
  \<open>depth\<close> and the same values \<open>w\<close>; the gradient buffer of the result is all zero and has
  length \<open>sx * sy * depth\<close>. The serialised form has the fields \<open>sx\<close>, \<open>sy\<close>, \<open>depth\<close>, \<open>w\<close>
  only and does not depend on the gradients of the tensor.
\<close>

theorem toJSON_fromJSON_roundtrip:
  assumes "int (length (w V)) = sx V * sy V * depth V"
  shows "fromJSON this (toJSON V)
           = Inr (this\<lparr>sx := sx V, sy := sy V, depth := depth V, w := w V,
                       dw := replicate (nat (sx V * sy V * depth V)) 0\<rparr>)
         \<and> toJSON (V\<lparr>dw := g\<rparr>) = toJSON V"
proof -
  have n: "nat (sx V * sy V * depth V) = length (w V)" using assms by simp
  have nn: "\<not> sx V * sy V * depth V < 0" using assms by linarith
  have "foldE (\<lambda>i tw. store tw (int i) (rd (w V) (int i))) [0..<length (w V)]
          (replicate (length (w V)) 0) = Inr (w V)"
    using copy_loop[of "replicate (length (w V)) 0" "w V" 0] by simp
  then show ?thesis
    using n nn by (simp add: fromJSON_def toJSON_def zeros_def Let_def upto_conv_map foldE_map)
qed

theorem toJSON_fromJSON_roundtrip_witness:
  "int (length (w \<lparr>sx = 1, sy = 2, depth = 1, w = [3, 4], dw = [5, 6]\<rparr>))
     = sx \<lparr>sx = 1, sy = 2, depth = 1, w = [3, 4], dw = [5, 6]\<rparr>
       * sy \<lparr>sx = 1, sy = 2, depth = 1, w = [3, 4], dw = [5, 6]\<rparr>
       * depth \<lparr>sx = 1, sy = 2, depth = 1, w = [3, 4], dw = [5, 6]\<rparr>
   \<and> fromJSON \<lparr>sx = 0, sy = 0, depth = 0, w = [], dw = []\<rparr>
        (toJSON \<lparr>sx = 1, sy = 2, depth = 1, w = [3, 4], dw = [5, 6]\<rparr>)
      = Inr \<lparr>sx = 1, sy = 2, depth = 1, w = [3, 4], dw = [0, 0]\<rparr>"
  using toJSON_fromJSON_roundtrip
    [of "\<lparr>sx = 1, sy = 2, depth = 1, w = [3, 4], dw = [5, 6]\<rparr>"
        "\<lparr>sx = 0, sy = 0, depth = 0, w = [], dw = []\<rparr>"]
  by (simp add: numeral_2_eq_2)

subsection \<open>Output size of ConvLayer and PoolLayer\<close>


lemma pow2_cover:
  fixes s :: int
  assumes "0 < s"
  shows "\<exists>j. s \<le> 2 ^ j \<and> 2 ^ j \<le> 2 * s"
proof -
  have "1 \<le> nat s" using assms by simp
  from ex_power_ivl1[of 2 "nat s", OF _ this] obtain n where n: "2 ^ n \<le> nat s" "nat s < 2 ^ (n + 1)"
    by auto
  have a: "s \<le> 2 ^ (n + 1)"
  proof -
    have "int (nat s) < int (2 ^ (n + 1))" using n(2) by (simp only: of_nat_less_iff)
    then show ?thesis using assms by simp
  qed
  have b: "(2::int) ^ (n + 1) \<le> 2 * s"
  proof -
    have "int (2 ^ n) \<le> int (nat s)" using n(1) by (simp only: of_nat_le_iff)
    then show ?thesis using assms by simp
  qed
  from a b show ?thesis by blast
qed

lemma is_double_near_int:
  fixes k :: int and j :: nat
  assumes "\<bar>k\<bar> * 2 ^ j < 2 ^ 52" "j \<le> 52"
  shows "is_double (of_int k - 1 / 2 ^ j)"
proof -
  have p: "(0::int) < 2 ^ j" by simp
  have "\<bar>k * 2 ^ j\<bar> = \<bar>k\<bar> * 2 ^ j" by (simp add: abs_mult)
  then have "\<bar>k * 2 ^ j - 1\<bar> \<le> \<bar>k\<bar> * 2 ^ j + 1" by linarith
  moreover have "(2::int) ^ 53 = 2 * 2 ^ 52" "(1::int) \<le> 2 ^ 52" by simp_all
  ultimately have "\<bar>k * 2 ^ j - 1\<bar> < 2 ^ 53" using assms(1) by linarith
  then have "is_double (of_int (k * 2 ^ j - 1) / 2 ^ j)"
    using assms(2) by (intro is_double_frac) simp_all
  moreover have "(of_int (k * 2 ^ j - 1) / 2 ^ j :: real) = of_int k - 1 / 2 ^ j"
    by (simp add: field_simps)
  ultimately show ?thesis by simp
qed

lemma floor_div_rounded:
  fixes a s :: int
  assumes a: "\<bar>a\<bar> < 2 ^ 48" and s: "0 < s" "s < 2 ^ 48"
  shows "\<exists>q r. fl (of_int a / of_int s) = Some q \<and> fl (q + 1) = Some r \<and> \<lfloor>r\<rfloor> = a div s + 1"
proof -
  define k where "k = a div s"
  have pw: "(2::int) ^ 49 = 2 * 2 ^ 48" "(2::int) ^ 52 = 16 * 2 ^ 48" "(2::int) ^ 53 = 32 * 2 ^ 48"
    "(1::int) \<le> 2 ^ 48"
    by simp_all
  from pow2_cover[OF s(1)] obtain j where j: "s \<le> 2 ^ j" "2 ^ j \<le> 2 * s" by blast
  have j52: "j \<le> 52"
  proof (rule ccontr)
    assume "\<not> j \<le> 52"
    then have "(2::int) ^ 53 \<le> 2 ^ j" by (intro power_increasing) simp_all
    with j(2) s(2) pw show False by linarith
  qed
  have ks: "k * s \<le> a" "a < k * s + s"
  proof -
    have "a = k * s + a mod s" by (simp add: k_def)
    moreover have "0 \<le> a mod s" "a mod s < s" using s(1) by simp_all
    ultimately show "k * s \<le> a" "a < k * s + s" by linarith+
  qed
  have "\<bar>k\<bar> * s \<le> \<bar>a\<bar> + s"
  proof (cases "0 \<le> k")
    case True
    then have "\<bar>k\<bar> * s = k * s" by simp
    then show ?thesis using ks(1) s(1) by linarith
  next
    case False
    then have "\<bar>k\<bar> * s = - (k * s)" by simp
    then show ?thesis using ks(2) by linarith
  qed
  then have "\<bar>k\<bar> * (2 * s) \<le> 2 * \<bar>a\<bar> + 2 * s" by simp
  moreover have "\<bar>k\<bar> * 2 ^ j \<le> \<bar>k\<bar> * (2 * s)" using j(2) by (intro mult_left_mono) simp_all
  ultimately have kb: "\<bar>k\<bar> * 2 ^ j \<le> 2 * \<bar>a\<bar> + 2 * s" by linarith
  have jb: "(2::int) ^ j < 2 ^ 49" using j(2) s(2) pw by linarith
  have b1: "\<bar>k + 1\<bar> * 2 ^ j < 2 ^ 52"
  proof -
    have "\<bar>k + 1\<bar> * 2 ^ j \<le> (\<bar>k\<bar> + 1) * 2 ^ j" by (intro mult_right_mono) simp_all
    also have "\<dots> = \<bar>k\<bar> * 2 ^ j + 2 ^ j" by (simp add: algebra_simps)
    finally show ?thesis using kb jb a s(2) pw by linarith
  qed
  have b2: "\<bar>k + 2\<bar> * 2 ^ j < 2 ^ 52"
  proof -
    have "\<bar>k + 2\<bar> * 2 ^ j \<le> (\<bar>k\<bar> + 2) * 2 ^ j" by (intro mult_right_mono) simp_all
    also have "\<dots> = \<bar>k\<bar> * 2 ^ j + 2 * 2 ^ j" by (simp add: algebra_simps)
    finally show ?thesis using kb jb a s(2) pw by linarith
  qed
  have kabs: "\<bar>k\<bar> \<le> 2 ^ 53" "\<bar>k + 1\<bar> \<le> 2 ^ 53"
  proof -
    have "\<bar>k\<bar> * 1 \<le> \<bar>k\<bar> * 2 ^ j" by (intro mult_left_mono) simp_all
    then show "\<bar>k\<bar> \<le> 2 ^ 53" using kb a s(2) pw by linarith
    have "\<bar>k + 1\<bar> * 1 \<le> \<bar>k + 1\<bar> * 2 ^ j" by (intro mult_left_mono) simp_all
    then have "\<bar>k + 1\<bar> \<le> \<bar>k + 1\<bar> * 2 ^ j" by (simp only: mult_1_right)
    then show "\<bar>k + 1\<bar> \<le> 2 ^ 53" using b1 pw by linarith
  qed
  let ?q = "of_int a / of_int s :: real"
  let ?d = "of_int (k + 1) - 1 / 2 ^ j :: real"
  have sr: "(0::real) < of_int s" using s(1) by simp
  have lo: "of_int k \<le> ?q"
  proof -
    have "(of_int (k * s) :: real) \<le> of_int a" using ks(1) by (simp only: of_int_le_iff)
    then show ?thesis using sr by (simp add: field_simps)
  qed
  have "(of_int s :: real) \<le> of_int (2 ^ j)" using j(1) by (simp only: of_int_le_iff)
  then have inv: "1 / 2 ^ j \<le> 1 / (of_int s :: real)" using sr by (simp add: field_simps)
  have hi: "?q \<le> ?d"
  proof -
    have "a + 1 \<le> k * s + s" using ks(2) by simp
    then have "(of_int (a + 1) :: real) \<le> of_int (k * s + s)" by (simp only: of_int_le_iff)
    then have "?q + 1 / of_int s \<le> of_int (k + 1)" using sr by (simp add: field_simps)
    then show ?thesis using inv by linarith
  qed
  have dk: "is_double (of_int k)" using kabs(1) by (rule is_double_int)
  have dd: "is_double ?d" using b1 j52 by (rule is_double_near_int)
  from fl_between[OF dk dd lo hi] obtain q where q: "fl ?q = Some q" "of_int k \<le> q" "q \<le> ?d"
    by blast
  have dk1: "is_double (of_int (k + 1))" using kabs(2) by (rule is_double_int)
  have dd1: "is_double (of_int (k + 2) - 1 / 2 ^ j)" using b2 j52 by (rule is_double_near_int)
  have lo1: "of_int (k + 1) \<le> q + 1" using q(2) by simp
  have hi1: "q + 1 \<le> of_int (k + 2) - 1 / 2 ^ j" using q(3) by simp
  from fl_between[OF dk1 dd1 lo1 hi1] obtain r where
    r: "fl (q + 1) = Some r" "of_int (k + 1) \<le> r" "r \<le> of_int (k + 2) - 1 / 2 ^ j"
    by blast
  have "(0::real) < 1 / 2 ^ j" by simp
  moreover have "real_of_int (k + 2) = of_int (k + 1) + 1" by simp
  ultimately have "r < of_int (k + 1) + 1" using r(3) by linarith
  then have "\<lfloor>r\<rfloor> = k + 1" using r(2) by (intro floor_unique) simp_all
  then show ?thesis using q(1) r(1) by (simp add: k_def)
qed

lemma out_size_exact:
  assumes "\<bar>inp\<bar> < 2 ^ 31" "\<bar>pd\<bar> < 2 ^ 31" "\<bar>f\<bar> < 2 ^ 31" "0 < st" "st < 2 ^ 31"
  shows "out_size inp pd f st = Dim ((inp + 2 * pd - f) div st + 1)"
proof -
  have 1: "omul (Some (real_of_int pd)) (Some 2) = Some (real_of_int (pd * 2))"
    using fl_int[of "pd * 2"] assms(2) by (simp add: omul_def)
  have 2: "oadd (Some (real_of_int inp)) (Some (real_of_int (pd * 2)))
             = Some (real_of_int (inp + pd * 2))"
    using fl_int[of "inp + pd * 2"] assms(1,2) by (simp add: oadd_def)
  have 3: "osub (Some (real_of_int (inp + pd * 2))) (Some (real_of_int f))
             = Some (real_of_int (inp + pd * 2 - f))"
    using fl_int[of "inp + pd * 2 - f"] assms(1,2,3) by (simp add: osub_def)
  have a: "\<bar>inp + pd * 2 - f\<bar> < 2 ^ 48" using assms(1,2,3) by simp
  have s: "st < 2 ^ 48" using assms(5) by simp
  from floor_div_rounded[OF a assms(4) s] obtain q r where
    q: "fl (real_of_int (inp + pd * 2 - f) / real_of_int st) = Some q"
    and r: "fl (q + 1) = Some r" "\<lfloor>r\<rfloor> = (inp + pd * 2 - f) div st + 1"
    by blast
  have 4: "oadd (odiv (Some (real_of_int (inp + pd * 2 - f))) (Some (real_of_int st))) (Some 1)
             = Some r"
    using q r(1) assms(4) by (simp add: odiv_def oadd_def)
  show ?thesis
    using assms(4) r(2) by (simp only: out_size_def 1 2 3 4 option.case) (simp add: mult.commute)
qed








subsection \<open>Bias groups\<close>

lemma foldE_invariant:
  assumes "\<And>x s s'. P s \<Longrightarrow> f x s = Inr s' \<Longrightarrow> P s'"
    and "P s" and "foldE f xs s = Inr s'"
  shows "P s'"
  using assms(2,3)
proof (induction xs arbitrary: s)
  case Nil
  then show ?case by simp
next
  case (Cons x xs)
  then show ?case using assms(1) by (auto split: sum.splits)
qed

lemma update_weight_no_decay_loss:
  assumes "update_weight T 0 0 j (p, g, gs, xs, l1, l2) = Inr (p', g', gs', xs', l1', l2')"
  shows "l1' = l1 \<and> l2' = l2"
  using assms by (auto simp: update_weight_def Let_def split: option.splits sum.splits prod.splits)

lemma apply_rule_decay_indep:
  "apply_rule (T\<lparr>t_l1_decay := a, t_l2_decay := b\<rparr>) gr j s = apply_rule T gr j s"
  by (simp add: apply_rule_def Let_def
        cong: if_cong option.case_cong sum.case_cong prod.case_cong)

lemma update_weight_decay_indep:
  "update_weight (T\<lparr>t_l1_decay := a, t_l2_decay := b\<rparr>) l1d l2d = update_weight T l1d l2d"
  by (intro ext) (simp add: update_weight_def apply_rule_decay_indep
        cong: if_cong option.case_cong sum.case_cong prod.case_cong)

text \<open>
  C10. Whenever \<open>getParamsAndGrads\<close> of a convolution or of a fully-connected layer returns,
  the last group of its result is the bias group, with \<open>l1_decay_mul = 0.0\<close> and
  \<open>l2_decay_mul = 0.0\<close>, whatever the multipliers configured in the layer. For a group with
  both multipliers zero the trainer's update of the group does not depend on the decay
  rates \<open>l1_decay\<close> and \<open>l2_decay\<close> of the trainer, and it adds nothing to the two decay
  losses: the bias weights get no L1 and no L2 decay.
\<close>

theorem bias_group_no_decay:
  "(conv_getParamsAndGrads L = Inr r \<longrightarrow>
      r \<noteq> [] \<and> last r = \<lparr>params = w (c_biases L), grads = dw (c_biases L),
                            l1_decay_mul = Some 0, l2_decay_mul = Some 0\<rparr>)
 \<and> (fc_getParamsAndGrads F = Inr r' \<longrightarrow>
      r' \<noteq> [] \<and> last r' = \<lparr>params = w (f_biases F), grads = dw (f_biases F),
                              l1_decay_mul = Some 0, l2_decay_mul = Some 0\<rparr>)
 \<and> (rd pglist i = Some pg \<and> l1_decay_mul pg = Some 0 \<and> l2_decay_mul pg = Some 0 \<longrightarrow>
      update_group (T\<lparr>t_l1_decay := a, t_l2_decay := b\<rparr>) i (pglist, gsum, xsum, l1, l2)
        = update_group T i (pglist, gsum, xsum, l1, l2)
    \<and> (update_group T i (pglist, gsum, xsum, l1, l2) = Inr (pglist', gsum', xsum', l1', l2')
         \<longrightarrow> l1' = l1 \<and> l2' = l2))"
proof (intro conjI impI)
  assume "conv_getParamsAndGrads L = Inr r"
  then obtain r0 where "r = r0 @ [\<lparr>params = w (c_biases L), grads = dw (c_biases L),
                            l1_decay_mul = Some 0, l2_decay_mul = Some 0\<rparr>]"
    by (auto simp: conv_getParamsAndGrads_def split: sum.splits)
  then show "r \<noteq> []" "last r = \<lparr>params = w (c_biases L), grads = dw (c_biases L),
                            l1_decay_mul = Some 0, l2_decay_mul = Some 0\<rparr>"
    by simp_all
next
  assume "fc_getParamsAndGrads F = Inr r'"
  then obtain r0 where "r' = r0 @ [\<lparr>params = w (f_biases F), grads = dw (f_biases F),
                            l1_decay_mul = Some 0, l2_decay_mul = Some 0\<rparr>]"
    by (auto simp: fc_getParamsAndGrads_def split: sum.splits)
  then show "r' \<noteq> []" "last r' = \<lparr>params = w (f_biases F), grads = dw (f_biases F),
                            l1_decay_mul = Some 0, l2_decay_mul = Some 0\<rparr>"
    by simp_all
next
  assume a: "rd pglist i = Some pg \<and> l1_decay_mul pg = Some 0 \<and> l2_decay_mul pg = Some 0"
  show "update_group (T\<lparr>t_l1_decay := a, t_l2_decay := b\<rparr>) i (pglist, gsum, xsum, l1, l2)
        = update_group T i (pglist, gsum, xsum, l1, l2)"
    using a by (simp add: update_group_def dflt_def Let_def update_weight_decay_indep
        cong: if_cong option.case_cong sum.case_cong prod.case_cong)
next
  assume a: "rd pglist i = Some pg \<and> l1_decay_mul pg = Some 0 \<and> l2_decay_mul pg = Some 0"
    and u: "update_group T i (pglist, gsum, xsum, l1, l2) = Inr (pglist', gsum', xsum', l1', l2')"
  from u a obtain p' g' gs' xs' where
    f: "foldE (update_weight T 0 0) [0..int (length (params pg)) - 1]
          (params pg, grads pg, rd gsum i, rd xsum i, l1, l2) = Inr (p', g', gs', xs', l1', l2')"
    by (auto simp: update_group_def dflt_def Let_def split: sum.splits prod.splits)
  have "(\<lambda>s. fst (snd (snd (snd (snd s)))) = l1 \<and> snd (snd (snd (snd (snd s)))) = l2)
          (p', g', gs', xs', l1', l2')"
  proof (rule foldE_invariant[OF _ _ f])
    fix x and s s' :: "real list \<times> real list \<times> real list option \<times> real list option \<times> real \<times> real"
    assume "fst (snd (snd (snd (snd s)))) = l1 \<and> snd (snd (snd (snd (snd s)))) = l2"
      and "update_weight T 0 0 x s = Inr s'"
    then show "fst (snd (snd (snd (snd s')))) = l1 \<and> snd (snd (snd (snd (snd s')))) = l2"
      using update_weight_no_decay_loss
      by (cases s, cases s') fastforce
  qed simp
  then show "l1' = l1" "l2' = l2" by simp_all
qed

theorem bias_group_no_decay_witness:
  "conv_getParamsAndGrads ex_conv
     = Inr [\<lparr>params = [2], grads = [0], l1_decay_mul = Some (1/2), l2_decay_mul = Some 1\<rparr>,
            \<lparr>params = [3], grads = [0], l1_decay_mul = Some 0, l2_decay_mul = Some 0\<rparr>]
 \<and> fc_getParamsAndGrads ex_fc
     = Inr [\<lparr>params = [0], grads = [0], l1_decay_mul = Some (1/2), l2_decay_mul = Some 1\<rparr>,
            \<lparr>params = [3], grads = [0], l1_decay_mul = Some 0, l2_decay_mul = Some 0\<rparr>]
 \<and> update_group ((ex_trainer (\<lparr>layers = []\<rparr> :: unit net))\<lparr>t_l1_decay := 7, t_l2_decay := 9\<rparr>) 1
       ([\<lparr>params = [2], grads = [0], l1_decay_mul = Some (1/2), l2_decay_mul = Some 1\<rparr>,
         \<lparr>params = [3], grads = [4], l1_decay_mul = Some 0, l2_decay_mul = Some 0\<rparr>],
        [], [], 0, 0)
     = Inr ([\<lparr>params = [2], grads = [0], l1_decay_mul = Some (1/2), l2_decay_mul = Some 1\<rparr>,
             \<lparr>params = [-1], grads = [0], l1_decay_mul = Some 0, l2_decay_mul = Some 0\<rparr>],
            [], [], 0, 0)"
proof -
  let ?g1 = "\<lparr>params = [2::real], grads = [0::real], l1_decay_mul = Some (1/2), l2_decay_mul = Some 1\<rparr>"
  let ?gb = "\<lparr>params = [3::real], grads = [0::real], l1_decay_mul = Some 0, l2_decay_mul = Some 0\<rparr>"
  let ?gb4 = "\<lparr>params = [3::real], grads = [4::real], l1_decay_mul = Some 0, l2_decay_mul = Some 0\<rparr>"
  let ?f1 = "\<lparr>params = [0::real], grads = [0::real], l1_decay_mul = Some (1/2), l2_decay_mul = Some 1\<rparr>"
  let ?T = "ex_trainer (\<lparr>layers = []\<rparr> :: unit net)"
  have c: "conv_getParamsAndGrads ex_conv = Inr [?g1, ?gb]"
    by (simp add: conv_getParamsAndGrads_def ex_conv_def filter_groups_def rd_def)
  have f: "fc_getParamsAndGrads ex_fc = Inr [?f1, ?gb]"
    by (simp add: fc_getParamsAndGrads_def ex_fc_def filter_groups_def rd_def)
  have u: "update_group ?T 1 ([?g1, ?gb4], [], [], 0, 0)
             = Inr ([?g1, ?gb4\<lparr>params := [-1], grads := [0]\<rparr>], [], [], 0, 0)"
    by (simp add: update_group_def update_weight_def apply_rule_def gij_def ex_trainer_def
          rd_def store_def add_to_def oadd_def omul_def odiv_def dflt_def Let_def fl_eval)
  have h: "rd [?g1, ?gb4] 1 = Some ?gb4 \<and> l1_decay_mul ?gb4 = Some 0 \<and> l2_decay_mul ?gb4 = Some 0"
    by (simp add: rd_def)
  from bias_group_no_decay[where pglist = "[?g1, ?gb4]" and i = 1 and pg = ?gb4
        and T = ?T and a = 7 and b = 9 and gsum = "[]" and xsum = "[]" and ?l1.0 = 0
        and ?l2.0 = 0] h
  have "update_group (?T\<lparr>t_l1_decay := 7, t_l2_decay := 9\<rparr>) 1 ([?g1, ?gb4], [], [], 0, 0)
         = update_group ?T 1 ([?g1, ?gb4], [], [], 0, 0)"
    by blast
  with c f u show ?thesis by simp
qed

subsection \<open>Net: getPrediction\<close>

lemma upto_from_1_conv_map: "[1..int n - 1] = map int [1..<n]"
  by (rule nth_equalityI) (auto simp: nth_upto)

lemma argmax_loop:
  assumes "1 \<le> n" "n \<le> length p"
  shows "\<exists>m<n. fold (\<lambda>i. argmax_step p (int i)) [1..<n] (Some (p ! 0), 0) = (Some (p ! m), int m)
            \<and> (\<forall>j<n. p ! j \<le> p ! m) \<and> (\<forall>j<m. p ! j < p ! m)"
  using assms
proof (induction n)
  case 0
  then show ?case by simp
next
  case (Suc n)
  show ?case
  proof (cases "n = 0")
    case True
    then show ?thesis by simp
  next
    case False
    then have "1 \<le> n" "n \<le> length p" using Suc.prems by simp_all
    then obtain m where m: "m < n"
        "fold (\<lambda>i. argmax_step p (int i)) [1..<n] (Some (p ! 0), 0) = (Some (p ! m), int m)"
        "\<forall>j<n. p ! j \<le> p ! m" "\<forall>j<m. p ! j < p ! m"
      using Suc.IH by blast
    have n: "n < length p" using Suc.prems by simp
    have f: "fold (\<lambda>i. argmax_step p (int i)) [1..<Suc n] (Some (p ! 0), 0)
             = argmax_step p (int n) (Some (p ! m), int m)"
      using False m(2) by simp
    show ?thesis
    proof (cases "p ! n > p ! m")
      case True
      then have "argmax_step p (int n) (Some (p ! m), int m) = (Some (p ! n), int n)"
        using n by (simp add: argmax_step_def rd_def)
      moreover have "\<forall>j<Suc n. p ! j \<le> p ! n"
        using m(3) True by (metis less_Suc_eq less_le_not_le linorder_le_cases order_trans)
      moreover have "\<forall>j<n. p ! j < p ! n"
        using m(3) True by (meson le_less_trans)
      ultimately show ?thesis using f by (intro exI[of _ n]) simp
    next
      case False
      then have "argmax_step p (int n) (Some (p ! m), int m) = (Some (p ! m), int m)"
        using n by (simp add: argmax_step_def rd_def)
      moreover have "\<forall>j<Suc n. p ! j \<le> p ! m"
        using m(3) False by (simp add: less_Suc_eq)
      ultimately show ?thesis using f m(1,4) by (intro exI[of _ m]) simp
    qed
  qed
qed

text \<open>
  C8. \<open>getPrediction\<close> on a net whose last layer is not of type softmax fails with the
  error of the assertion and returns no value. On a net whose last layer is of type
  softmax and has output activations \<open>w\<close>, not empty, it returns an index \<open>m\<close> of \<open>w\<close> such
  that no value of \<open>w\<close> is greater than \<open>w[m]\<close> and every value before \<open>m\<close> is smaller: the
  first index of the maximal value.
\<close>

theorem getPrediction_argmax:
  "(layers N \<noteq> [] \<and> layer_type X (last (layers N)) \<noteq> ''softmax'' \<longrightarrow>
      getPrediction X N
        = Inl (Error ''getPrediction function assumes softmax as last layer of the net!''))
 \<and> (layers N \<noteq> [] \<and> layer_type X (last (layers N)) = ''softmax''
      \<and> out_act X (last (layers N)) = Some A \<and> w A \<noteq> [] \<longrightarrow>
      (\<exists>m<length (w A). getPrediction X N = Inr (int m)
          \<and> (\<forall>j<length (w A). w A ! j \<le> w A ! m) \<and> (\<forall>j<m. w A ! j < w A ! m)))"
proof (intro conjI impI)
  assume a: "layers N \<noteq> [] \<and> layer_type X (last (layers N)) \<noteq> ''softmax''"
  then have "rd (layers N) (int (length (layers N)) - 1) = Some (last (layers N))"
    by (simp add: rd_def last_conv_nth nat_diff_distrib')
  then show "getPrediction X N
        = Inl (Error ''getPrediction function assumes softmax as last layer of the net!'')"
    using a by (simp add: getPrediction_def)
next
  assume a: "layers N \<noteq> [] \<and> layer_type X (last (layers N)) = ''softmax''
      \<and> out_act X (last (layers N)) = Some A \<and> w A \<noteq> []"
  then have r: "rd (layers N) (int (length (layers N)) - 1) = Some (last (layers N))"
    by (simp add: rd_def last_conv_nth nat_diff_distrib')
  have p0: "rd (w A) 0 = Some (w A ! 0)" using a by (simp add: rd_def)
  have g: "getPrediction X N
      = Inr (snd (fold (\<lambda>i. argmax_step (w A) (int i)) [1..<length (w A)] (Some (w A ! 0), 0)))"
    using a r p0 by (simp add: getPrediction_def upto_from_1_conv_map fold_map comp_def Let_def)
  have "1 \<le> length (w A)" using a by (cases "w A") simp_all
  from argmax_loop[OF this, of "w A"] obtain m where
    "m < length (w A)"
    "fold (\<lambda>i. argmax_step (w A) (int i)) [1..<length (w A)] (Some (w A ! 0), 0)
       = (Some (w A ! m), int m)"
    "\<forall>j<length (w A). w A ! j \<le> w A ! m" "\<forall>j<m. w A ! j < w A ! m"
    by auto
  then show "\<exists>m<length (w A). getPrediction X N = Inr (int m)
          \<and> (\<forall>j<length (w A). w A ! j \<le> w A ! m) \<and> (\<forall>j<m. w A ! j < w A ! m)"
    using g by auto
qed

theorem getPrediction_argmax_witness:
  "getPrediction ex_ext \<lparr>layers = [Conv ex_conv]\<rparr>
     = Inl (Error ''getPrediction function assumes softmax as last layer of the net!'')
 \<and> getPrediction ex_ext
       \<lparr>layers = [Ext (''softmax'', Some \<lparr>sx = 1, sy = 1, depth = 3, w = [1, 3, 3], dw = [0, 0, 0]\<rparr>)]\<rparr>
     = Inr 1"
proof -
  let ?A = "\<lparr>sx = 1, sy = 1, depth = 3, w = [1, 3, 3], dw = [0, 0, 0]\<rparr>"
  let ?N = "\<lparr>layers = [Ext (''softmax'', Some ?A)]\<rparr>"
  have 1: "getPrediction ex_ext \<lparr>layers = [Conv ex_conv]\<rparr>
     = Inl (Error ''getPrediction function assumes softmax as last layer of the net!'')"
    using getPrediction_argmax[of "\<lparr>layers = [Conv ex_conv]\<rparr>" ex_ext]
    by (simp add: ex_conv_def)
  have "\<exists>m<length (w ?A). getPrediction ex_ext ?N = Inr (int m)
          \<and> (\<forall>j<length (w ?A). w ?A ! j \<le> w ?A ! m) \<and> (\<forall>j<m. w ?A ! j < w ?A ! m)"
    using getPrediction_argmax[of ?N ex_ext ?A] by (simp add: ex_ext_def)
  then obtain m where m: "m < 3" "getPrediction ex_ext ?N = Inr (int m)"
     "\<forall>j<3. [1, 3, 3::real] ! j \<le> [1, 3, 3] ! m" "\<forall>j<m. [1, 3, 3::real] ! j < [1, 3, 3] ! m"
    by auto
  have "m = 0 \<or> m = 1 \<or> m = 2" using m(1) by linarith
  then have "m = 1"
  proof (elim disjE)
    assume "m = 0"
    moreover have "(1::nat) < 3" by simp
    ultimately have "[1, 3, 3::real] ! 1 \<le> [1, 3, 3] ! 0" using m(3) by blast
    then show ?thesis by simp
  next
    assume "m = 2"
    moreover have "(1::nat) < 2" by simp
    ultimately have "[1, 3, 3::real] ! 1 < [1, 3, 3] ! 2" using m(4) by blast
    then show ?thesis by simp
  qed simp
  with m(2) 1 show ?thesis by simp
qed

subsection \<open>Net: makeLayers\<close>

lemmas makeLayers_eval =
  makeLayers_def desugar_def desugar_def_def create_def construct_def ex_ext_def new_def_def
  rd_def upto_conv_map Let_def

lemma zip_upto_append:
  "zip [0..int (length (xs @ ys)) - 1] (xs @ ys)
     = zip [0..int (length xs) - 1] xs
       @ zip [int (length xs)..int (length xs) + int (length ys) - 1] ys"
proof (cases "xs = []")
  case True
  then show ?thesis by simp
next
  case False
  then have 1: "0 \<le> int (length xs) - 1" by (cases xs) simp_all
  have 2: "[0..int (length (xs @ ys)) - 1]
             = [0..int (length xs) - 1] @ [int (length xs)..int (length xs) + int (length ys) - 1]"
    using upto_split2[of 0 "int (length xs) - 1" "int (length xs) + int (length ys) - 1"] 1
    by simp
  have 3: "length [0..int (length xs) - 1] = length xs" by simp
  show ?thesis unfolding 2 using 3 by (simp del: length_upto)
qed

lemma zip_upto_Cons:
  "zip [m..m + int (length (y # ys)) - 1] (y # ys) = (m, y) # zip [m + 1..m + 1 + int (length ys) - 1] ys"
proof -
  have "[m..m + int (length (y # ys)) - 1] = m # [m + 1..m + int (length (y # ys)) - 1]"
    by (rule upto_rec1) simp
  then show ?thesis by (simp add: add.commute add.left_commute)
qed

lemma construct_grows:
  "construct X g d (ls, i, con) = Inr (ls', i', con') \<Longrightarrow> length ls' \<le> length ls + 1"
  by (auto simp: construct_def split: if_splits sum.splits prod.splits)

lemma create_grows:
  "create X g (n, d) (ls, i, con) = Inr (ls', i', con') \<Longrightarrow> length ls' \<le> length ls + 1"
  by (auto simp: create_def split: if_splits option.splits dest: construct_grows)

lemma creating_loop_grows:
  "foldE (create X g) ps (ls, i, con) = Inr (ls', i', con') \<Longrightarrow> length ls' \<le> length ls + length ps"
proof (induction ps arbitrary: ls i con)
  case Nil
  then show ?case by simp
next
  case (Cons p ps)
  obtain n d where p: "p = (n, d)" by (cases p)
  from Cons.prems obtain s1 where s1: "create X g p (ls, i, con) = Inr s1"
      and r: "foldE (create X g) ps s1 = Inr (ls', i', con')"
    by (auto split: sum.splits)
  obtain l1 i1 c1 where s: "s1 = (l1, i1, c1)" by (cases s1)
  have "length l1 \<le> length ls + 1" using s1 unfolding p s by (rule create_grows)
  moreover have "length ls' \<le> length l1 + length ps" using r unfolding s by (rule Cons.IH)
  ultimately show ?case by simp
qed

lemma create_missing_previous:
  "0 < n \<Longrightarrow> int (length ls) \<le> n - 1 \<Longrightarrow> create X g (n, d) (ls, i, con) = Inl TypeError"
  by (simp add: create_def rd_def)

lemma create_unrecognized:
  assumes "o_type d \<notin> {''fc'', ''lrn'', ''dropout'', ''input'', ''softmax'', ''regression'', ''conv'',
                   ''pool'', ''relu'', ''sigmoid'', ''tanh'', ''maxout'', ''svm''}"
    and "n \<le> 0 \<or> n - 1 < int (length ls)"
  shows "create X g (n, d) (ls, i, con)
        = Inr (ls, i, con @ [''ERROR: UNRECOGNIZED LAYER TYPE: '' @ o_type d])"
proof (cases "n > 0")
  case True
  then have "rd ls (n - 1) = Some (ls ! nat (n - 1))" using assms(2) by (simp add: rd_def)
  then show ?thesis using assms(1) True by (simp add: create_def construct_def)
next
  case False
  then show ?thesis using assms(1) by (simp add: create_def construct_def)
qed

lemma creating_loop_unrecognized:
  assumes u: "o_type u \<notin> {''fc'', ''lrn'', ''dropout'', ''input'', ''softmax'', ''regression'', ''conv'',
                   ''pool'', ''relu'', ''sigmoid'', ''tanh'', ''maxout'', ''svm''}"
    and pre: "foldE (create X g) (zip [0..int (length pre) - 1] pre) ([], i, con0) = Inr (ls, i', con')"
  shows "foldE (create X g) (zip [0..int (length (pre @ u # post)) - 1] (pre @ u # post)) ([], i, con0)
           = (if post = [] \<and> length ls = length pre
              then Inr (ls, i', con' @ [''ERROR: UNRECOGNIZED LAYER TYPE: '' @ o_type u])
              else Inl TypeError)"
proof -
  let ?m = "int (length pre)"
  have le: "length ls \<le> length pre"
    using creating_loop_grows[OF pre] by simp
  have z: "zip [0..int (length (pre @ u # post)) - 1] (pre @ u # post)
             = zip [0..?m - 1] pre @ (?m, u) # zip [?m + 1..?m + 1 + int (length post) - 1] post"
    by (simp only: zip_upto_append zip_upto_Cons)
  have run: "foldE (create X g) (zip [0..int (length (pre @ u # post)) - 1] (pre @ u # post)) ([], i, con0)
           = (case create X g (?m, u) (ls, i', con') of Inl e \<Rightarrow> Inl e
              | Inr s' \<Rightarrow> foldE (create X g) (zip [?m + 1..?m + 1 + int (length post) - 1] post) s')"
    by (simp only: z foldE_append pre sum.case foldE.simps)
  show ?thesis
  proof (cases "length ls = length pre")
    case False
    then have "length ls < length pre" using le by simp
    then have "0 < ?m" "int (length ls) \<le> ?m - 1" by linarith+
    then have "create X g (?m, u) (ls, i', con') = Inl TypeError"
      by (rule create_missing_previous)
    then show ?thesis unfolding run using False by simp
  next
    case True
    then have "?m \<le> 0 \<or> ?m - 1 < int (length ls)" by simp
    from create_unrecognized[OF u this]
    have c: "create X g (?m, u) (ls, i', con')
               = Inr (ls, i', con' @ [''ERROR: UNRECOGNIZED LAYER TYPE: '' @ o_type u])" .
    show ?thesis
    proof (cases post)
      case Nil
      then show ?thesis unfolding run c using True by simp
    next
      case (Cons d' rest)
      have n: "create X g (?m + 1, d')
                 (ls, i', con' @ [''ERROR: UNRECOGNIZED LAYER TYPE: '' @ o_type u]) = Inl TypeError"
        by (rule create_missing_previous) (simp_all add: True)
      have "zip [?m + 1..?m + 1 + int (length post) - 1] post
              = (?m + 1, d') # zip [?m + 1 + 1..?m + 1 + 1 + int (length rest) - 1] rest"
        unfolding Cons by (rule zip_upto_Cons)
      then show ?thesis unfolding run c using Cons n by simp
    qed
  qed
qed

text \<open>
  C6, as stated, fails: a definition with the unsupported activation \<open>swish\<close>, and a
  definition with the unrecognised type \<open>bogus\<close> at the end of the list, each leave
  \<open>makeLayers\<close> returning a net, with one line on the console.
\<close>

theorem makeLayers_not_fatal_counterexample:
  "makeLayers ex_ext ex_gauss 0 \<lparr>layers = []\<rparr>
     [new_def ''input'', (new_def ''relu'')\<lparr>o_activation := Some ''swish''\<rparr>]
   = Inr (\<lparr>layers = [Ext (''input'', None), Ext (''relu'', None)]\<rparr>, 0,
          [''ERROR unsupported activation swish''])
 \<and> makeLayers ex_ext ex_gauss 0 \<lparr>layers = []\<rparr> [new_def ''input'', new_def ''bogus'']
   = Inr (\<lparr>layers = [Ext (''input'', None)]\<rparr>, 0,
          [''ERROR: UNRECOGNIZED LAYER TYPE: bogus''])"
  by (simp add: makeLayers_eval numeral_2_eq_2)

text \<open>
  C6, amended. \<open>makeLayers\<close> fails with the error of its assertion when fewer than two
  definitions are given, and when the first definition is not of type \<open>input\<close>. An
  unsupported activation value is not fatal: \<open>desugar\<close> writes one line to the console
  and pushes the definitions it pushes for the same definition without the activation
  field. An unrecognised type is not validated either: the \<open>switch\<close> of the creating loop
  writes one line to the console and pushes no layer. Let \<open>u\<close> be a definition of
  unrecognised type in the desugared list, and let the rounds for the definitions before
  it return, with the layers \<open>ls\<close>. If \<open>u\<close> is the last definition and each definition
  before it has made a layer, \<open>makeLayers\<close> returns the net of the layers \<open>ls\<close>, with no
  layer for \<open>u\<close>. In every other case a round finds no previous layer at its position,
  and reading \<open>out_sx\<close> of it throws a TypeError: in particular whenever a definition
  follows \<open>u\<close>.
\<close>

theorem makeLayers_validation:
  "(length defs < 2 \<longrightarrow>
      makeLayers X g i N defs
        = Inl (Error ''Error! At least one input layer and one loss layer are required.''))
 \<and> (2 \<le> length defs \<and> o_type (defs ! 0) \<noteq> ''input'' \<longrightarrow>
      makeLayers X g i N defs
        = Inl (Error ''Error! First layer must be the input layer, to declare size of inputs''))
 \<and> (o_activation d = Some a \<and> a \<notin> {''relu'', ''sigmoid'', ''tanh'', ''maxout''} \<longrightarrow>
      snd (desugar_def d (ds, con)) = con @ [''ERROR unsupported activation '' @ a]
    \<and> map (\<lambda>x. x\<lparr>o_activation := None\<rparr>) (fst (desugar_def d (ds, con)))
        = map (\<lambda>x. x\<lparr>o_activation := None\<rparr>)
            (fst (desugar_def (d\<lparr>o_activation := None\<rparr>) (ds, con))))
 \<and> (2 \<le> length defs \<and> o_type (defs ! 0) = ''input''
      \<and> o_type u \<notin> {''fc'', ''lrn'', ''dropout'', ''input'', ''softmax'', ''regression'', ''conv'',
                   ''pool'', ''relu'', ''sigmoid'', ''tanh'', ''maxout'', ''svm''}
      \<and> desugar defs = (pre @ u # post, con0)
      \<and> foldE (create X g) (zip [0..int (length pre) - 1] pre) ([], i, con0) = Inr (ls, i', con')
    \<longrightarrow>
      makeLayers X g i N defs
        = (if post = [] \<and> length ls = length pre
           then Inr (N\<lparr>layers := ls\<rparr>, i',
                     con' @ [''ERROR: UNRECOGNIZED LAYER TYPE: '' @ o_type u])
           else Inl TypeError))"
proof (intro conjI impI)
  assume "length defs < 2"
  then show "makeLayers X g i N defs
        = Inl (Error ''Error! At least one input layer and one loss layer are required.'')"
    by (simp add: makeLayers_def)
next
  assume "2 \<le> length defs \<and> o_type (defs ! 0) \<noteq> ''input''"
  then show "makeLayers X g i N defs
        = Inl (Error ''Error! First layer must be the input layer, to declare size of inputs'')"
    by (simp add: makeLayers_def)
next
  assume "o_activation d = Some a \<and> a \<notin> {''relu'', ''sigmoid'', ''tanh'', ''maxout''}"
  then show "snd (desugar_def d (ds, con)) = con @ [''ERROR unsupported activation '' @ a]"
    by (simp add: desugar_def_def Let_def)
next
  assume "o_activation d = Some a \<and> a \<notin> {''relu'', ''sigmoid'', ''tanh'', ''maxout''}"
  then show "map (\<lambda>x. x\<lparr>o_activation := None\<rparr>) (fst (desugar_def d (ds, con)))
        = map (\<lambda>x. x\<lparr>o_activation := None\<rparr>)
            (fst (desugar_def (d\<lparr>o_activation := None\<rparr>) (ds, con)))"
    by (simp add: desugar_def_def Let_def)
next
  assume a: "2 \<le> length defs \<and> o_type (defs ! 0) = ''input''
      \<and> o_type u \<notin> {''fc'', ''lrn'', ''dropout'', ''input'', ''softmax'', ''regression'', ''conv'',
                   ''pool'', ''relu'', ''sigmoid'', ''tanh'', ''maxout'', ''svm''}
      \<and> desugar defs = (pre @ u # post, con0)
      \<and> foldE (create X g) (zip [0..int (length pre) - 1] pre) ([], i, con0) = Inr (ls, i', con')"
  then have u: "o_type u \<notin> {''fc'', ''lrn'', ''dropout'', ''input'', ''softmax'', ''regression'',
                   ''conv'', ''pool'', ''relu'', ''sigmoid'', ''tanh'', ''maxout'', ''svm''}"
    and pre: "foldE (create X g) (zip [0..int (length pre) - 1] pre) ([], i, con0) = Inr (ls, i', con')"
    by simp_all
  have m: "makeLayers X g i N defs
        = (case foldE (create X g) (zip [0..int (length (pre @ u # post)) - 1] (pre @ u # post))
                  ([], i, con0) of
              Inl e \<Rightarrow> Inl e
            | Inr (ls, i', con') \<Rightarrow> Inr (N\<lparr>layers := ls\<rparr>, i', con'))"
    using a by (simp add: makeLayers_def)
  show "makeLayers X g i N defs
        = (if post = [] \<and> length ls = length pre
           then Inr (N\<lparr>layers := ls\<rparr>, i',
                     con' @ [''ERROR: UNRECOGNIZED LAYER TYPE: '' @ o_type u])
           else Inl TypeError)"
    unfolding m creating_loop_unrecognized[OF u pre] by simp
qed

theorem makeLayers_validation_witness:
  "makeLayers ex_ext ex_gauss 0 \<lparr>layers = []\<rparr> [new_def ''input'']
     = Inl (Error ''Error! At least one input layer and one loss layer are required.'')
 \<and> makeLayers ex_ext ex_gauss 0 \<lparr>layers = []\<rparr> [new_def ''conv'', new_def ''softmax'']
     = Inl (Error ''Error! First layer must be the input layer, to declare size of inputs'')
 \<and> snd (desugar_def ((new_def ''pool'')\<lparr>o_activation := Some ''swish''\<rparr>) ([], []))
     = [''ERROR unsupported activation swish'']
 \<and> makeLayers ex_ext ex_gauss 0 \<lparr>layers = []\<rparr> [new_def ''input'', new_def ''bogus'']
     = Inr (\<lparr>layers = [Ext (''input'', None)]\<rparr>, 0, [''ERROR: UNRECOGNIZED LAYER TYPE: bogus''])
 \<and> makeLayers ex_ext ex_gauss 0 \<lparr>layers = []\<rparr>
       [new_def ''input'', new_def ''bogus'', (new_def ''fc'')\<lparr>o_num_neurons := Some 1\<rparr>]
     = Inl TypeError"
proof (intro conjI)
  have h: "length [new_def ''input''] < 2" by simp
  show "makeLayers ex_ext ex_gauss 0 \<lparr>layers = []\<rparr> [new_def ''input'']
     = Inl (Error ''Error! At least one input layer and one loss layer are required.'')"
    by (rule makeLayers_validation[THEN conjunct1, THEN mp, OF h])
next
  have h: "2 \<le> length [new_def ''conv'', new_def ''softmax'']
        \<and> o_type ([new_def ''conv'', new_def ''softmax''] ! 0) \<noteq> ''input''"
    by (simp add: new_def_def)
  show "makeLayers ex_ext ex_gauss 0 \<lparr>layers = []\<rparr> [new_def ''conv'', new_def ''softmax'']
     = Inl (Error ''Error! First layer must be the input layer, to declare size of inputs'')"
    by (rule makeLayers_validation[THEN conjunct2, THEN conjunct1, THEN mp, OF h])
next
  have h: "o_activation ((new_def ''pool'')\<lparr>o_activation := Some ''swish''\<rparr>) = Some ''swish''
        \<and> ''swish'' \<notin> {''relu'', ''sigmoid'', ''tanh'', ''maxout''}"
    by simp
  have "snd (desugar_def ((new_def ''pool'')\<lparr>o_activation := Some ''swish''\<rparr>) ([], []))
     = [] @ [''ERROR unsupported activation '' @ ''swish'']"
    by (rule makeLayers_validation[THEN conjunct2, THEN conjunct2, THEN conjunct1, THEN mp,
          OF h, THEN conjunct1])
  then show "snd (desugar_def ((new_def ''pool'')\<lparr>o_activation := Some ''swish''\<rparr>) ([], []))
     = [''ERROR unsupported activation swish'']"
    by simp
next
  let ?defs = "[new_def ''input'', new_def ''bogus'']"
  have h: "2 \<le> length ?defs \<and> o_type (?defs ! 0) = ''input''
      \<and> o_type (new_def ''bogus'') \<notin> {''fc'', ''lrn'', ''dropout'', ''input'', ''softmax'',
           ''regression'', ''conv'', ''pool'', ''relu'', ''sigmoid'', ''tanh'', ''maxout'', ''svm''}
      \<and> desugar ?defs = ([new_def ''input''] @ new_def ''bogus'' # [], [])
      \<and> foldE (create ex_ext ex_gauss) (zip [0..int (length [new_def ''input'']) - 1] [new_def ''input''])
            ([], 0, []) = Inr ([Ext (''input'', None)], 0, [])"
    by (simp add: makeLayers_eval upto_small)
  have "makeLayers ex_ext ex_gauss 0 \<lparr>layers = []\<rparr> ?defs
        = (if ([]::opt list) = [] \<and> length [Ext (''input'', None::vol option)] = length [new_def ''input'']
           then Inr (\<lparr>layers = []\<rparr>\<lparr>layers := [Ext (''input'', None)]\<rparr>, 0,
                     [] @ [''ERROR: UNRECOGNIZED LAYER TYPE: '' @ o_type (new_def ''bogus'')])
           else Inl TypeError)"
    by (rule makeLayers_validation[THEN conjunct2, THEN conjunct2, THEN conjunct2, THEN mp, OF h])
  then show "makeLayers ex_ext ex_gauss 0 \<lparr>layers = []\<rparr> ?defs
     = Inr (\<lparr>layers = [Ext (''input'', None)]\<rparr>, 0, [''ERROR: UNRECOGNIZED LAYER TYPE: bogus''])"
    by (simp add: new_def_def)
next
  let ?fc = "(new_def ''fc'')\<lparr>o_num_neurons := Some 1\<rparr>"
  let ?defs = "[new_def ''input'', new_def ''bogus'', ?fc]"
  have h: "2 \<le> length ?defs \<and> o_type (?defs ! 0) = ''input''
      \<and> o_type (new_def ''bogus'') \<notin> {''fc'', ''lrn'', ''dropout'', ''input'', ''softmax'',
           ''regression'', ''conv'', ''pool'', ''relu'', ''sigmoid'', ''tanh'', ''maxout'', ''svm''}
      \<and> desugar ?defs = ([new_def ''input''] @ new_def ''bogus'' # [?fc\<lparr>o_bias_pref := Some 0\<rparr>], [])
      \<and> foldE (create ex_ext ex_gauss) (zip [0..int (length [new_def ''input'']) - 1] [new_def ''input''])
            ([], 0, []) = Inr ([Ext (''input'', None)], 0, [])"
    by (simp add: makeLayers_eval upto_small)
  have "makeLayers ex_ext ex_gauss 0 \<lparr>layers = []\<rparr> ?defs
        = (if [?fc\<lparr>o_bias_pref := Some 0\<rparr>] = [] \<and> length [Ext (''input'', None::vol option)] = length [new_def ''input'']
           then Inr (\<lparr>layers = []\<rparr>\<lparr>layers := [Ext (''input'', None)]\<rparr>, 0,
                     [] @ [''ERROR: UNRECOGNIZED LAYER TYPE: '' @ o_type (new_def ''bogus'')])
           else Inl TypeError)"
    by (rule makeLayers_validation[THEN conjunct2, THEN conjunct2, THEN conjunct2, THEN mp, OF h])
  then show "makeLayers ex_ext ex_gauss 0 \<lparr>layers = []\<rparr> ?defs = Inl TypeError"
    by simp
qed

subsection \<open>Trainer: the applied gradient\<close>

lemmas train_eval = upto_small
  train_def net_forward_def net_backward_def fc_forward_def fc_backward_def fc_neuron_def
  fc_back_neuron_def net_getParamsAndGrads_def fc_getParamsAndGrads_def filter_groups_def
  update_def init_accumulators_def update_group_def update_weight_def apply_rule_def gij_def
  js_rem_def put_vol_def put_filters_def Vol_def zeros_def rd_def store_def add_to_def
  oadd_def omul_def odiv_def osub_def dflt_def ex_trainer_def ex_fc_def upto_conv_map Let_def
  fl_eval

text \<open>
  Away from zero the applied gradient is the one of the formula: the raw gradient is added
  to \<open>l2_decay * p + l1_decay * sign(p)\<close> and the sum divided by the batch size.
\<close>

lemma gij_nonzero_weight:
  assumes "pj \<noteq> 0"
  shows "gij batch_size l1_decay l2_decay pj gj
           = odiv (oadd (Some (l2_decay * pj + l1_decay * sgn pj)) gj)
               (Some (real_of_int batch_size))"
  using assms by (simp add: gij_def Let_def sgn_real_def)

text \<open>
  C5 fails on the code at a weight that is zero. With \<open>l1_decay = 1/2\<close>, \<open>l2_decay = 1\<close>,
  \<open>batch_size = 1\<close>, \<open>p = 0\<close> and raw gradient \<open>0\<close>, the gradient applied is \<open>-1/2\<close> and not
  \<open>(l2_decay * p + l1_decay * sign(p) + g) / batch_size = 0\<close>: the code takes \<open>-1\<close> for the
  sign of zero. One call of \<open>train\<close> on a net of one fully-connected layer with the
  single weight \<open>0\<close> (learning rate \<open>1\<close>, plain SGD, the group's \<open>l1_decay_mul = 1/2\<close>) moves
  the weight to \<open>1/2\<close>.
\<close>

theorem l1_gradient_at_zero_weight:
  "gij 1 (1/2) 1 0 (Some 0) = Some (- 1/2)
 \<and> gij 1 (1/2) 1 0 (Some 0) \<noteq> Some ((1 * 0 + 1/2 * sgn 0 + 0) / real_of_int 1)
 \<and> train ex_ext (ex_trainer \<lparr>layers = [FC ex_fc]\<rparr>)
       \<lparr>sx = 1, sy = 1, depth = 1, w = [0], dw = [0]\<rparr> 0
     = Inr ((ex_trainer
              \<lparr>layers = [FC (ex_fc\<lparr>
                 f_filters := [\<lparr>sx = 1, sy = 1, depth = 1, w = [1/2], dw = [0]\<rparr>],
                 f_in_act := Some \<lparr>sx = 1, sy = 1, depth = 1, w = [0], dw = [0]\<rparr>,
                 f_out_act := Some \<lparr>sx = 1, sy = 1, depth = 1, w = [3], dw = [0]\<rparr>\<rparr>)]\<rparr>)
              \<lparr>t_k := 1\<rparr>,
            \<lparr>r_l2_decay_loss = 0, r_l1_decay_loss = 0, r_cost_loss = None,
              r_softmax_loss = None, r_loss = None\<rparr>)"
  by (simp add: train_eval)

subsection \<open>Trainer: calls without an update\<close>

text \<open>Forward and backward passes write activations and gradients, never a parameter.\<close>

lemma filter_groups_params:
  assumes "map w fs = map w fs'"
  shows "map_sum id (map params) (filter_groups fs l1 l2 n)
       = map_sum id (map params) (filter_groups fs' l1' l2' n)"
proof -
  have len: "length fs = length fs'" using assms by (rule map_eq_imp_length_eq)
  have nth: "\<And>i. i < length fs \<Longrightarrow> w (fs ! i) = w (fs' ! i)"
    using assms by (metis nth_map len)
  have "\<And>r r'. map params r = map params r' \<Longrightarrow>
      map_sum id (map params)
        (foldE (\<lambda>i response. case rd fs i of None \<Rightarrow> Inl TypeError
                 | Some f \<Rightarrow> Inr (response @ [\<lparr>params = w f, grads = dw f,
                      l1_decay_mul = Some l1, l2_decay_mul = Some l2\<rparr>])) is r)
    = map_sum id (map params)
        (foldE (\<lambda>i response. case rd fs' i of None \<Rightarrow> Inl TypeError
                 | Some f \<Rightarrow> Inr (response @ [\<lparr>params = w f, grads = dw f,
                      l1_decay_mul = Some l1', l2_decay_mul = Some l2'\<rparr>])) is r')" for "is"
  proof (induction "is")
    case Nil
    then show ?case by simp
  next
    case (Cons i "is")
    show ?case
    proof (cases "0 \<le> i \<and> i < int (length fs)")
      case True
      then have "nat i < length fs" by linarith
      then have "w (fs ! nat i) = w (fs' ! nat i)" by (rule nth)
      moreover have "rd fs i = Some (fs ! nat i)" "rd fs' i = Some (fs' ! nat i)"
        using True len by (simp_all add: rd_def)
      ultimately show ?thesis using Cons.prems
        by (simp only: foldE.simps option.case sum.case) (rule Cons.IH, simp)
    next
      case False
      then have "rd fs i = None" "rd fs' i = None" using len by (simp_all add: rd_def)
      then show ?thesis by simp
    qed
  qed
  then show ?thesis by (simp add: filter_groups_def)
qed

lemma conv_forward_params:
  assumes "conv_forward L V = Inr (L', A)"
  shows "conv_getParamsAndGrads L' = conv_getParamsAndGrads L"
  using assms
  by (auto simp: conv_forward_def conv_getParamsAndGrads_def split: sum.splits)

lemma fc_forward_params:
  assumes "fc_forward L V = Inr (L', A)"
  shows "fc_getParamsAndGrads L' = fc_getParamsAndGrads L"
  using assms
  by (auto simp: fc_forward_def fc_getParamsAndGrads_def split: sum.splits)

lemma conv_back_window_w:
  assumes "conv_back_window V_sx V_sy x y cg (f, V) = Inr (f', V')"
  shows "w f' = w f"
proof -
  let ?P = "\<lambda>s :: vol \<times> vol. w (fst s) = w f"
  have inner: "\<And>fd s s' fy fx oy ox. ?P s \<Longrightarrow>
     (case s of (f, V) \<Rightarrow>
        let ix1 = ((V_sx * oy) + ox) * depth V + fd;
            ix2 = ((sx f * fy) + fx) * depth f + fd
        in case add_to (dw f) ix2 (omul (rd (w V) ix1) cg) of
             Inl e \<Rightarrow> Inl e
           | Inr fdw \<Rightarrow>
               (case add_to (dw V) ix1 (omul (rd (w f) ix2) cg) of
                  Inl e \<Rightarrow> Inl e
                | Inr Vdw \<Rightarrow> Inr (f\<lparr>dw := fdw\<rparr>, V\<lparr>dw := Vdw\<rparr>))) = Inr s' \<Longrightarrow> ?P s'"
    by (auto simp: Let_def split: sum.splits prod.splits)
  have "?P (f', V')"
    using assms unfolding conv_back_window_def
    apply (elim foldE_invariant[where P = ?P, rotated 2])
     apply (simp only: Let_def)
     apply (elim foldE_invariant[where P = ?P, rotated 2])
      apply (simp split: if_splits)
      apply (elim foldE_invariant[where P = ?P, rotated 2])
       apply (auto simp: Let_def split: sum.splits prod.splits)
    done
  then show ?thesis by simp
qed


lemma map_w_update:
  assumes "rd fs d = Some f" "w f' = w f"
  shows "map w (fs[nat d := f']) = map w fs"
proof -
  have "nat d < length fs" "fs ! nat d = f"
    using assms(1) by (auto simp: rd_def split: if_splits)
  then show ?thesis using assms(2) by (simp add: map_update list_update_same_conv)
qed

lemma conv_back_cell_w:
  assumes "conv_back_cell L d ay ax (fs, V, b) = Inr (fs', V', b')"
  shows "map w fs' = map w fs \<and> w b' = w b"
  using assms
  by (auto simp: conv_back_cell_def Let_def map_w_update
           dest!: conv_back_window_w split: option.splits sum.splits prod.splits)

lemma conv_backward_params:
  assumes "conv_backward L = Inr L'"
  shows "map w (c_filters L') = map w (c_filters L) \<and> w (c_biases L') = w (c_biases L)
       \<and> c_out_depth L' = c_out_depth L"
proof -
  let ?P = "\<lambda>s :: vol list \<times> vol \<times> vol.
              map w (fst s) = map w (c_filters L) \<and> w (snd (snd s)) = w (c_biases L)"
  have cell: "\<And>d ay ax s s'. ?P s \<Longrightarrow> conv_back_cell L d ay ax s = Inr s' \<Longrightarrow> ?P s'"
    using conv_back_cell_w by (metis prod.collapse)
  from assms obtain V0 z fs V b where
    f: "foldE (\<lambda>d. foldE (\<lambda>ay. foldE (\<lambda>ax. conv_back_cell L d ay ax)
                                       [0..c_out_sx L - 1]) [0..c_out_sy L - 1])
                       [0..c_out_depth L - 1] (c_filters L, V0\<lparr>dw := z\<rparr>, c_biases L)
        = Inr (fs, V, b)"
    and L': "L' = L\<lparr>c_filters := fs, c_biases := b, c_in_act := Some V\<rparr>"
    by (auto simp: conv_backward_def split: option.splits sum.splits prod.splits)
  have "?P (fs, V, b)"
    using f
    apply (elim foldE_invariant[where P = ?P, rotated 2])
       apply (erule cell[rotated], assumption)
      apply simp_all
    done
  then show ?thesis using L' by simp
qed

lemma fc_back_neuron_w:
  assumes "fc_back_neuron L i (fs, V, b) = Inr (fs', V', b')"
  shows "map w fs' = map w fs \<and> w b' = w b"
proof -
  have inner: "w tfi' = w tfi0"
    if "foldE (\<lambda>d (tfi, V).
          case add_to (dw V) d (omul (rd (w tfi) d) cg) of
            Inl e \<Rightarrow> Inl e
          | Inr Vdw \<Rightarrow>
              (case add_to (dw tfi) d (omul (rd (w V) d) cg) of
                 Inl e \<Rightarrow> Inl e
               | Inr tdw \<Rightarrow> Inr (tfi\<lparr>dw := tdw\<rparr>, V\<lparr>dw := Vdw\<rparr>)))
          ds (tfi0, V0) = Inr (tfi', V1)" for cg ds and tfi0 V0 tfi' V1 :: vol
  proof -
    let ?P = "\<lambda>s :: vol \<times> vol. w (fst s) = w tfi0"
    have "?P (tfi', V1)"
      using that
      apply (elim foldE_invariant[where P = ?P, rotated 2])
       apply (auto split: sum.splits prod.splits)
      done
    then show ?thesis by simp
  qed
  show ?thesis
    using assms
    by (auto simp: fc_back_neuron_def Let_def map_w_update
             dest!: inner split: option.splits sum.splits prod.splits if_splits)
qed

lemma fc_backward_params:
  assumes "fc_backward L = Inr L'"
  shows "map w (f_filters L') = map w (f_filters L) \<and> w (f_biases L') = w (f_biases L)
       \<and> f_out_depth L' = f_out_depth L"
proof -
  let ?P = "\<lambda>s :: vol list \<times> vol \<times> vol.
              map w (fst s) = map w (f_filters L) \<and> w (snd (snd s)) = w (f_biases L)"
  have cell: "\<And>i s s'. ?P s \<Longrightarrow> fc_back_neuron L i s = Inr s' \<Longrightarrow> ?P s'"
    using fc_back_neuron_w by (metis prod.collapse)
  from assms obtain V0 z fs V b where
    f: "foldE (fc_back_neuron L) [0..f_out_depth L - 1]
                       (f_filters L, V0\<lparr>dw := z\<rparr>, f_biases L)
        = Inr (fs, V, b)"
    and L': "L' = L\<lparr>f_filters := fs, f_biases := b, f_in_act := Some V\<rparr>"
    by (auto simp: fc_backward_def split: option.splits sum.splits prod.splits)
  have "?P (fs, V, b)"
    using f
    apply (elim foldE_invariant[where P = ?P, rotated 2])
     apply (erule cell[rotated], assumption)
    apply simp
    done
  then show ?thesis using L' by simp
qed

lemma conv_params_eq:
  assumes "map w (c_filters L') = map w (c_filters L)" "w (c_biases L') = w (c_biases L)"
    "c_out_depth L' = c_out_depth L"
  shows "layer_params (Conv L') = layer_params (Conv L)"
proof -
  have "map_sum id (map params)
          (filter_groups (c_filters L') (c_l1_decay_mul L') (c_l2_decay_mul L') (c_out_depth L))
      = map_sum id (map params)
          (filter_groups (c_filters L) (c_l1_decay_mul L) (c_l2_decay_mul L) (c_out_depth L))"
    using assms(1) by (rule filter_groups_params)
  then show ?thesis
    using assms(2,3)
    by (cases "filter_groups (c_filters L') (c_l1_decay_mul L') (c_l2_decay_mul L') (c_out_depth L)";
        cases "filter_groups (c_filters L) (c_l1_decay_mul L) (c_l2_decay_mul L) (c_out_depth L)")
       (simp_all add: layer_params_def conv_getParamsAndGrads_def)
qed

lemma fc_params_eq:
  assumes "map w (f_filters L') = map w (f_filters L)" "w (f_biases L') = w (f_biases L)"
    "f_out_depth L' = f_out_depth L"
  shows "layer_params (FC L') = layer_params (FC L)"
proof -
  have "map_sum id (map params)
          (filter_groups (f_filters L') (f_l1_decay_mul L') (f_l2_decay_mul L') (f_out_depth L))
      = map_sum id (map params)
          (filter_groups (f_filters L) (f_l1_decay_mul L) (f_l2_decay_mul L) (f_out_depth L))"
    using assms(1) by (rule filter_groups_params)
  then show ?thesis
    using assms(2,3)
    by (cases "filter_groups (f_filters L') (f_l1_decay_mul L') (f_l2_decay_mul L') (f_out_depth L)";
        cases "filter_groups (f_filters L) (f_l1_decay_mul L) (f_l2_decay_mul L) (f_out_depth L)")
       (simp_all add: layer_params_def fc_getParamsAndGrads_def)
qed

lemma layer_forward_params:
  assumes "layer_forward X l V tr = Inr (l', A)"
  shows "layer_params l' = layer_params l"
proof (cases l)
  case (Conv L)
  then show ?thesis using assms
    by (auto simp: layer_params_def dest: conv_forward_params split: sum.splits)
next
  case (FC L)
  then show ?thesis using assms
    by (auto simp: layer_params_def dest: fc_forward_params split: sum.splits)
next
  case (Pool L)
  then show ?thesis using assms
    by (auto simp: layer_params_def pool_getParamsAndGrads_def split: sum.splits)
next
  case (Ext L)
  then show ?thesis using assms
    by (auto simp: layer_params_def split: sum.splits)
qed

lemma layer_backward_params:
  assumes "layer_backward X l y = Inr (l', loss)"
  shows "layer_params l' = layer_params l"
proof (cases l)
  case (Conv L)
  then obtain L' where "conv_backward L = Inr L'" "l' = Conv L'"
    using assms by (auto split: sum.splits)
  then show ?thesis using Conv conv_backward_params[of L L'] conv_params_eq[of L' L] by simp
next
  case (FC L)
  then obtain L' where "fc_backward L = Inr L'" "l' = FC L'"
    using assms by (auto split: sum.splits)
  then show ?thesis using FC fc_backward_params[of L L'] fc_params_eq[of L' L] by simp
next
  case (Pool L)
  then show ?thesis using assms
    by (auto simp: layer_params_def pool_getParamsAndGrads_def split: sum.splits)
next
  case (Ext L)
  then show ?thesis using assms
    by (auto simp: layer_params_def split: sum.splits)
qed

lemma put_out_act_params: "layer_params (put_out_act X l A) = layer_params l"
  by (cases l)
     (simp_all add: layer_params_def conv_getParamsAndGrads_def fc_getParamsAndGrads_def
        pool_getParamsAndGrads_def cong: sum.case_cong)

lemma forward_layers_params:
  assumes "forward_layers X tr ls V = Inr (ls', out)"
  shows "map layer_params ls' = map layer_params ls"
  using assms
proof (induction ls arbitrary: V ls')
  case Nil
  then show ?case by simp
next
  case (Cons l ls)
  then show ?case
    by (auto dest: layer_forward_params split: sum.splits prod.splits)
qed

lemma backward_layers_params:
  assumes "backward_layers X ls upper = Inr ls'"
  shows "map layer_params ls' = map layer_params ls"
  using assms
proof (induction ls arbitrary: upper ls')
  case Nil
  then show ?case by simp
next
  case (Cons l ls)
  then show ?case
    by (auto dest!: layer_backward_params simp: put_out_act_params
             split: sum.splits prod.splits option.splits)
qed

lemma layers_params_determine:
  assumes "map layer_params ls = map layer_params ls'" "map params r = map params r'"
  shows "map_sum id (map params)
           (foldE (\<lambda>l response. case layer_getParamsAndGrads l of Inl e \<Rightarrow> Inl e
                     | Inr layer_reponse \<Rightarrow> Inr (response @ layer_reponse)) ls r)
       = map_sum id (map params)
           (foldE (\<lambda>l response. case layer_getParamsAndGrads l of Inl e \<Rightarrow> Inl e
                     | Inr layer_reponse \<Rightarrow> Inr (response @ layer_reponse)) ls' r')"
  using assms
proof (induction ls arbitrary: ls' r r')
  case Nil
  then show ?case by simp
next
  case (Cons l ls)
  then obtain l' ls2 where ls': "ls' = l' # ls2" by (cases ls') auto
  then have e: "layer_params l = layer_params l'" "map layer_params ls = map layer_params ls2"
    using Cons.prems by simp_all
  show ?case
  proof (cases "layer_getParamsAndGrads l")
    case (Inl a)
    then have "layer_getParamsAndGrads l' = Inl a"
      using e(1) by (cases "layer_getParamsAndGrads l'") (simp_all add: layer_params_def)
    then show ?thesis using Inl ls' by simp
  next
    case (Inr pgs)
    then obtain pgs' where p: "layer_getParamsAndGrads l' = Inr pgs'" "map params pgs = map params pgs'"
      using e(1) by (cases "layer_getParamsAndGrads l'") (simp_all add: layer_params_def)
    have "map params (r @ pgs) = map params (r' @ pgs')" using p(2) Cons.prems(2) by simp
    from Cons.IH[OF e(2) this] show ?thesis using Inr p(1) ls' by simp
  qed
qed

lemma net_params_determine:
  assumes "map layer_params (layers N) = map layer_params (layers N')"
  shows "net_params N = net_params N'"
  unfolding net_params_def net_getParamsAndGrads_def
  by (rule layers_params_determine[OF assms]) simp

lemma net_forward_params:
  assumes "net_forward X N V tr = Inr (N', A)"
  shows "net_params N' = net_params N"
proof -
  from assms obtain ls where "forward_layers X (dflt tr False) (layers N) V = Inr (ls, A)"
      "N' = N\<lparr>layers := ls\<rparr>"
    by (auto simp: net_forward_def split: list.splits sum.splits prod.splits)
  then show ?thesis
    using forward_layers_params[of X "dflt tr False" "layers N" V ls A]
    by (intro net_params_determine) simp
qed

lemma net_backward_params:
  assumes "net_backward X N y = Inr (N', loss)"
  shows "net_params N' = net_params N"
proof -
  from assms obtain l ls l' ls' where
    r: "rev (layers N) = l # ls" and b: "layer_backward X l (Some y) = Inr (l', loss)"
    and bs: "backward_layers X ls (in_act X l') = Inr ls'" and N': "N' = N\<lparr>layers := rev (l' # ls')\<rparr>"
    by (auto simp: net_backward_def split: list.splits sum.splits prod.splits)
  have "map layer_params (l' # ls') = map layer_params (l # ls)"
    using layer_backward_params[OF b] backward_layers_params[OF bs] by simp
  then have "map layer_params (rev (l' # ls')) = map layer_params (rev (l # ls))"
    by (simp only: rev_map[symmetric])
  also have "rev (l # ls) = layers N" using r by (metis rev_rev_ident)
  finally show ?thesis using N' by (intro net_params_determine) simp
qed

text \<open>
  C7. On a call of \<open>train\<close> that returns and on which the incremented counter \<open>k\<close> is not
  a multiple of \<open>batch_size\<close> (\<open>k % batch_size\<close> is not \<open>0\<close>), no update is made: the
  parameter buffers of the net are those of before the call, \<open>gsum\<close> and \<open>xsum\<close> are
  unchanged, and the returned \<open>l1_decay_loss\<close> and \<open>l2_decay_loss\<close> are both zero.
\<close>

theorem train_frame:
  assumes "js_rem (t_k T + 1) (t_batch_size T) \<noteq> Some 0"
    and "train X T x y = Inr (T', r)"
  shows "net_params (t_net T') = net_params (t_net T)
       \<and> t_gsum T' = t_gsum T \<and> t_xsum T' = t_xsum T
       \<and> r_l1_decay_loss r = 0 \<and> r_l2_decay_loss r = 0"
proof -
  from assms(2) obtain N1 act N2 cost_loss where
    f: "net_forward X (t_net T) x (Some True) = Inr (N1, act)"
    and b: "net_backward X N1 y = Inr (N2, cost_loss)"
    by (auto simp: train_def split: sum.splits prod.splits)
  have T': "T' = T\<lparr>t_net := N2, t_k := t_k T + 1\<rparr>"
    and r: "r_l1_decay_loss r = 0" "r_l2_decay_loss r = 0"
    using assms f b by (auto simp: train_def Let_def split: if_splits)
  have "net_params N2 = net_params (t_net T)"
    using net_forward_params[OF f] net_backward_params[OF b] by simp
  then show ?thesis using T' r by simp
qed

theorem train_frame_witness:
  "js_rem (t_k ((ex_trainer (\<lparr>layers = [FC ex_fc]\<rparr> :: (string \<times> vol option) net))\<lparr>t_batch_size := 2\<rparr>) + 1)
          (t_batch_size ((ex_trainer (\<lparr>layers = [FC ex_fc]\<rparr> :: (string \<times> vol option) net))\<lparr>t_batch_size := 2\<rparr>)) = Some 1
 \<and> (\<exists>T' r. train ex_ext ((ex_trainer (\<lparr>layers = [FC ex_fc]\<rparr> :: (string \<times> vol option) net))\<lparr>t_batch_size := 2\<rparr>)
                \<lparr>sx = 1, sy = 1, depth = 1, w = [5], dw = [0]\<rparr> 0 = Inr (T', r)
      \<and> net_params (t_net T') = Inr [[0], [3]]
      \<and> t_gsum T' = [] \<and> t_xsum T' = []
      \<and> r_l1_decay_loss r = 0 \<and> r_l2_decay_loss r = 0)"
proof -
  let ?T = "(ex_trainer (\<lparr>layers = [FC ex_fc]\<rparr> :: (string \<times> vol option) net))\<lparr>t_batch_size := 2\<rparr>"
  let ?x = "\<lparr>sx = 1, sy = 1, depth = 1, w = [5], dw = [0]\<rparr>"
  have k: "js_rem (t_k ?T + 1) (t_batch_size ?T) = Some 1"
    by (simp add: js_rem_def ex_trainer_def)
  then have h: "js_rem (t_k ?T + 1) (t_batch_size ?T) \<noteq> Some 0" by simp
  obtain T' r where e: "train ex_ext ?T ?x 0 = Inr (T', r)"
    by (simp add: train_eval)
  have p: "net_params (t_net ?T) = Inr [[0], [3]]"
    by (simp add: net_params_def train_eval)
  have g: "t_gsum ?T = []" "t_xsum ?T = []" by (simp_all add: ex_trainer_def)
  from train_frame[OF h e] p g k e show ?thesis by auto
qed

subsection \<open>ConvLayer: forward\<close>


lemma flat_index_bounds:
  fixes X Y D x y d :: int
  assumes "0 \<le> x" "x < X" "0 \<le> y" "y < Y" "0 \<le> d" "d < D"
  shows "0 \<le> (X * y + x) * D + d" and "(X * y + x) * D + d < X * Y * D"
proof -
  have X: "0 < X" and D: "0 < D" using assms by linarith+
  have "0 \<le> X * y" using X assms(3) by simp
  then have xy: "0 \<le> X * y + x" using assms(1) by linarith
  then show "0 \<le> (X * y + x) * D + d" using D assms(5) by simp
  have "X * y \<le> X * (Y - 1)" using X assms(4) by (intro mult_left_mono) linarith+
  then have "X * y + x + 1 \<le> X * Y" using assms(2) by (simp add: algebra_simps)
  then have "(X * y + x + 1) * D \<le> X * Y * D" using D by (intro mult_right_mono) linarith+
  then show "(X * y + x) * D + d < X * Y * D" using assms(6) by (simp add: algebra_simps)
qed

lemma flat_index_inj:
  fixes X D x y d x' y' d' :: int
  assumes "0 \<le> x" "x < X" "0 \<le> d" "d < D" "0 \<le> x'" "x' < X" "0 \<le> d'" "d' < D"
    and "(X * y + x) * D + d = (X * y' + x') * D + d'"
  shows "x = x' \<and> y = y' \<and> d = d'"
proof -
  have "((X * y + x) * D + d) mod D = d" using assms(3,4) by (simp add: mod_pos_pos_trivial)
  moreover have "((X * y' + x') * D + d') mod D = d'" using assms(7,8) by (simp add: mod_pos_pos_trivial)
  ultimately have d: "d = d'" using assms(9) by simp
  then have "(X * y + x) * D = (X * y' + x') * D" using assms(9) by simp
  then have e: "X * y + x = X * y' + x'" using assms(4) assms(3) by simp
  have "(X * y + x) mod X = x" using assms(1,2) by (simp add: mod_pos_pos_trivial)
  moreover have "(X * y' + x') mod X = x'" using assms(5,6) by (simp add: mod_pos_pos_trivial)
  ultimately have x: "x = x'" using e by simp
  then have "X * y = X * y'" using e by simp
  then have "y = y'" using assms(1,2) by simp
  with x d show ?thesis by simp
qed

lemma foldE_product:
  "foldE (\<lambda>x. foldE (f x) ys) xs s = foldE (\<lambda>(x, y). f x y) (List.product xs ys) s"
proof (induction xs arbitrary: s)
  case Nil
  show ?case by simp
next
  case (Cons x xs)
  show ?case
    by (cases "foldE (f x) ys s") (simp_all add: foldE_append foldE_map Cons.IH)
qed

lemma foldE_product3:
  "foldE (\<lambda>x. foldE (\<lambda>y. foldE (f x y) zs) ys) xs s
     = foldE (\<lambda>(x, y, z). f x y z) (List.product xs (List.product ys zs)) s"
proof -
  have "(\<lambda>x. foldE (\<lambda>y. foldE (f x y) zs) ys)
          = (\<lambda>x. foldE (\<lambda>(y, z). f x y z) (List.product ys zs))"
    by (intro ext) (rule foldE_product)
  then have "foldE (\<lambda>x. foldE (\<lambda>y. foldE (f x y) zs) ys) xs s
          = foldE (\<lambda>x. foldE (\<lambda>(y, z). f x y z) (List.product ys zs)) xs s"
    by simp
  also have "\<dots> = foldE (\<lambda>(x, p). (\<lambda>(y, z). f x y z) p) (List.product xs (List.product ys zs)) s"
    by (rule foldE_product)
  finally show ?thesis by (simp add: split_def)
qed

lemma foldE_cells:
  fixes step :: "'c \<Rightarrow> vol \<Rightarrow> error + vol"
  assumes step: "\<And>c arr. c \<in> set cs \<Longrightarrow> length arr = n \<Longrightarrow>
                   step c (A0\<lparr>w := arr\<rparr>) = Inr (A0\<lparr>w := arr[k c := v c]\<rparr>)"
    and inj: "inj_on k (set cs)"
    and len: "length arr0 = n"
  shows "\<exists>arr. foldE step cs (A0\<lparr>w := arr0\<rparr>) = Inr (A0\<lparr>w := arr\<rparr>) \<and> length arr = n
           \<and> (\<forall>c\<in>set cs. k c < n \<longrightarrow> arr ! k c = v c)
           \<and> (\<forall>i. i \<notin> k ` set cs \<longrightarrow> arr ! i = arr0 ! i)"
  using assms
proof (induction cs arbitrary: arr0)
  case Nil
  then show ?case by (intro exI[of _ arr0]) simp
next
  case (Cons c cs)
  let ?arr1 = "arr0[k c := v c]"
  have s1: "step c (A0\<lparr>w := arr0\<rparr>) = Inr (A0\<lparr>w := ?arr1\<rparr>)"
    using Cons.prems(1)[of c arr0] Cons.prems(3) by simp
  have inj': "inj_on k (set cs)" using Cons.prems(2) by (simp add: inj_on_def)
  have "\<exists>arr. foldE step cs (A0\<lparr>w := ?arr1\<rparr>) = Inr (A0\<lparr>w := arr\<rparr>) \<and> length arr = n
           \<and> (\<forall>c\<in>set cs. k c < n \<longrightarrow> arr ! k c = v c)
           \<and> (\<forall>i. i \<notin> k ` set cs \<longrightarrow> arr ! i = ?arr1 ! i)"
    using Cons.prems(1,3) by (intro Cons.IH inj') simp_all
  then obtain arr where arr: "foldE step cs (A0\<lparr>w := ?arr1\<rparr>) = Inr (A0\<lparr>w := arr\<rparr>)"
      "length arr = n" "\<forall>c\<in>set cs. k c < n \<longrightarrow> arr ! k c = v c"
      "\<forall>i. i \<notin> k ` set cs \<longrightarrow> arr ! i = ?arr1 ! i"
    by blast
  have c: "k c < n \<longrightarrow> arr ! k c = v c"
  proof (cases "c \<in> set cs")
    case True
    then show ?thesis using arr(3) by blast
  next
    case False
    then have "k c \<notin> k ` set cs" using Cons.prems(2) by (auto simp: inj_on_def)
    then have "arr ! k c = ?arr1 ! k c" using arr(4) by blast
    then show ?thesis using Cons.prems(3) by simp
  qed
  have u: "\<forall>i. i \<notin> k ` set (c # cs) \<longrightarrow> arr ! i = arr0 ! i"
    using arr(4) by auto
  show ?case using s1 arr(1,2,3) c u by auto
qed

lemma conv_coords_set:
  "(fy, fx, fd) \<in> set (conv_coords f V x y)
     \<longleftrightarrow> 0 \<le> fy \<and> fy < sy f \<and> 0 \<le> fx \<and> fx < sx f \<and> 0 \<le> fd \<and> fd < depth f
         \<and> 0 \<le> y + fy \<and> y + fy < sy V \<and> 0 \<le> x + fx \<and> x + fx < sx V"
  by (force simp: conv_coords_def)

lemma fold_if_list: "fold g (if P then xs else []) = (if P then fold g xs else id)"
  by simp






text \<open>
  The rounding is visible in the stored value: with the filter \<open>[10^16, 1, 1]\<close>, the bias
  \<open>0\<close> and the input \<open>[1, 1, 1]\<close> each addition of \<open>1\<close> to \<open>10^16\<close> is a tie that rounds
  back to \<open>10^16\<close>, which is the value stored.
\<close>

lemma conv_forward_rounds:
  "conv_wf ex_conv_row ex_ones
   \<and> conv_forward ex_conv_row ex_ones
     = Inr (ex_conv_row\<lparr>c_in_act := Some ex_ones,
              c_out_act := Some \<lparr>sx = 1, sy = 1, depth = 1, w = [10000000000000000], dw = [0]\<rparr>\<rparr>,
            \<lparr>sx = 1, sy = 1, depth = 1, w = [10000000000000000], dw = [0]\<rparr>)"
  by (simp add: conv_wf_def ex_conv_row_def ex_ones_def conv_forward_def conv_cell_def
        conv_window_def Vol_def zeros_def to_int32_def set_v_def store_def rd_def ix_def
        oadd_def omul_def upto_small fl_eval fl_tie_example fl_big_example Let_def)

lemma fold_products_exact:
  fixes cs :: "'c list" and p q :: "'c \<Rightarrow> int" and a :: int
  assumes "\<bar>a\<bar> + (\<Sum>c\<leftarrow>cs. \<bar>p c * q c\<bar>) \<le> 2 ^ 53"
  shows "fold (\<lambda>c acc. oadd acc (omul (Some (of_int (p c))) (Some (of_int (q c))))) cs (Some (of_int a))
           = Some (of_int (a + (\<Sum>c\<leftarrow>cs. p c * q c)))"
  using assms
proof (induction cs arbitrary: a)
  case Nil
  then show ?case by simp
next
  case (Cons c cs)
  have nn: "0 \<le> (\<Sum>c\<leftarrow>cs. \<bar>p c * q c\<bar>)" by (rule sum_list_nonneg) auto
  have b: "\<bar>p c * q c\<bar> \<le> 2 ^ 53" "\<bar>a + p c * q c\<bar> \<le> 2 ^ 53"
    "\<bar>a + p c * q c\<bar> + (\<Sum>c\<leftarrow>cs. \<bar>p c * q c\<bar>) \<le> 2 ^ 53"
    using Cons.prems nn by simp_all
  have m: "omul (Some (real_of_int (p c))) (Some (real_of_int (q c))) = Some (of_int (p c * q c))"
    using fl_int[OF b(1)] by (simp add: omul_def)
  have s: "oadd (Some (real_of_int a)) (Some (real_of_int (p c * q c))) = Some (of_int (a + p c * q c))"
    using fl_int[OF b(2)] by (simp add: oadd_def)
  have "fold (\<lambda>c acc. oadd acc (omul (Some (of_int (p c))) (Some (of_int (q c))))) (c # cs) (Some (of_int a))
          = fold (\<lambda>c acc. oadd acc (omul (Some (of_int (p c))) (Some (of_int (q c))))) cs
              (Some (of_int (a + p c * q c)))"
    by (simp only: fold_simps m s)
  also have "\<dots> = Some (of_int (a + p c * q c + (\<Sum>c\<leftarrow>cs. p c * q c)))"
    by (rule Cons.IH[OF b(3)])
  finally show ?case by (simp add: add.assoc)
qed

lemma fold_cong_set:
  assumes "\<And>c a. c \<in> set cs \<Longrightarrow> f c a = g c a"
  shows "fold f cs a = fold g cs a"
  using assms by (induction cs arbitrary: a) simp_all

text \<open>
  Where nothing is rounded, the value is the sum of the reals: for a filter, an input and
  a bias of integer values \<open>F\<close>, \<open>I\<close> and \<open>b\<close>, with the absolute values of the products and
  of the bias adding up to at most \<open>2^53\<close>, \<open>conv_value\<close> is the bias plus the sum of the
  products over the coordinates that lie inside the input.
\<close>

lemma conv_value_exact:
  fixes F I :: "int list" and b :: int
  assumes f: "w f = map of_int F" "int (length F) = sx f * sy f * depth f"
    and V: "w V = map of_int I" "int (length I) = sx V * sy V * depth V" "depth V = depth f"
    and bound: "\<bar>b\<bar> + (\<Sum>(fy, fx, fd)\<leftarrow>conv_coords f V x y.
                \<bar>F ! nat (ix f fx fy fd) * I ! nat (ix V (x + fx) (y + fy) fd)\<bar>) \<le> 2 ^ 53"
  shows "conv_value f V x y (Some (of_int b))
           = Some (of_int (b + (\<Sum>(fy, fx, fd)\<leftarrow>conv_coords f V x y.
                F ! nat (ix f fx fy fd) * I ! nat (ix V (x + fx) (y + fy) fd))))"
proof -
  let ?p = "\<lambda>(fy, fx, fd). F ! nat (ix f fx fy fd)"
  let ?q = "\<lambda>(fy, fx, fd). I ! nat (ix V (x + fx) (y + fy) fd)"
  let ?S = "\<Sum>c\<leftarrow>conv_coords f V x y. ?p c * ?q c"
  have eq: "(\<lambda>(fy, fx, fd) a. oadd a (omul (get f fx fy fd) (get V (x + fx) (y + fy) fd))) c a
          = (\<lambda>c acc. oadd acc (omul (Some (of_int (?p c))) (Some (of_int (?q c))))) c a"
    if c: "c \<in> set (conv_coords f V x y)" for c a
  proof -
    obtain fy fx fd where cc: "c = (fy, fx, fd)" by (cases c)
    from c have r: "0 \<le> fy" "fy < sy f" "0 \<le> fx" "fx < sx f" "0 \<le> fd" "fd < depth f"
        "0 \<le> y + fy" "y + fy < sy V" "0 \<le> x + fx" "x + fx < sx V"
      unfolding cc conv_coords_set by simp_all
    have 1: "0 \<le> ix f fx fy fd" "ix f fx fy fd < int (length F)"
      unfolding ix_def f(2) using flat_index_bounds[OF r(3,4,1,2,5,6)] by simp_all
    have d: "fd < depth V" using r(6) V(3) by simp
    have 2: "0 \<le> ix V (x + fx) (y + fy) fd" "ix V (x + fx) (y + fy) fd < int (length I)"
      unfolding ix_def V(2) using flat_index_bounds[OF r(9,10,7,8,5) d] by simp_all
    have g1: "get f fx fy fd = Some (of_int (F ! nat (ix f fx fy fd)))"
      using 1 by (simp add: get_def rd_def f(1))
    have g2: "get V (x + fx) (y + fy) fd = Some (of_int (I ! nat (ix V (x + fx) (y + fy) fd)))"
      using 2 by (simp add: get_def rd_def V(1))
    show ?thesis unfolding cc by (simp add: g1 g2)
  qed
  have sm: "(\<Sum>(fy, fx, fd)\<leftarrow>conv_coords f V x y.
                \<bar>F ! nat (ix f fx fy fd) * I ! nat (ix V (x + fx) (y + fy) fd)\<bar>)
            = (\<Sum>c\<leftarrow>conv_coords f V x y. \<bar>?p c * ?q c\<bar>)"
    by (rule arg_cong[where f = sum_list]) (auto simp: fun_eq_iff)
  have sm2: "(\<Sum>(fy, fx, fd)\<leftarrow>conv_coords f V x y.
                F ! nat (ix f fx fy fd) * I ! nat (ix V (x + fx) (y + fy) fd)) = ?S"
    by (rule arg_cong[where f = sum_list]) (auto simp: fun_eq_iff)
  have b0: "\<bar>0::int\<bar> + (\<Sum>c\<leftarrow>conv_coords f V x y. \<bar>?p c * ?q c\<bar>) \<le> 2 ^ 53"
    using bound unfolding sm by simp
  have absS: "\<bar>?S\<bar> \<le> (\<Sum>c\<leftarrow>conv_coords f V x y. \<bar>?p c * ?q c\<bar>)"
    using sum_list_abs[of "map (\<lambda>c. ?p c * ?q c) (conv_coords f V x y)"]
    by (simp add: comp_def)
  have "fold (\<lambda>(fy, fx, fd) a. oadd a (omul (get f fx fy fd) (get V (x + fx) (y + fy) fd)))
          (conv_coords f V x y) (Some 0)
        = fold (\<lambda>c acc. oadd acc (omul (Some (of_int (?p c))) (Some (of_int (?q c)))))
            (conv_coords f V x y) (Some (of_int 0))"
    using fold_cong_set[of "conv_coords f V x y", OF eq] by simp
  also have "\<dots> = Some (of_int (0 + ?S))" by (rule fold_products_exact[OF b0])
  finally have w: "fold (\<lambda>(fy, fx, fd) a. oadd a (omul (get f fx fy fd) (get V (x + fx) (y + fy) fd)))
          (conv_coords f V x y) (Some 0) = Some (of_int ?S)" by simp
  have "\<bar>?S + b\<bar> \<le> 2 ^ 53" using absS bound unfolding sm by linarith
  from fl_int[OF this] have "oadd (Some (of_int ?S)) (Some (of_int b)) = Some (of_int (b + ?S))"
    by (simp add: oadd_def add.commute)
  then show ?thesis unfolding conv_value_def w sm2 .
qed

subsection \<open>PoolLayer: forward\<close>

lemma fold_invariant:
  assumes "\<And>x s. x \<in> set xs \<Longrightarrow> P s \<Longrightarrow> P (f x s)" and "P s"
  shows "P (fold f xs s)"
  using assms by (induction xs arbitrary: s) simp_all

lemma pool_window_coords:
  assumes "pool_window L V d x y = (a, wx, wy)"
  shows "(wx = -1 \<and> wy = -1) \<or> (0 \<le> wx \<and> wx < sx V \<and> 0 \<le> wy \<and> wy < sy V)"
proof -
  let ?P = "\<lambda>s :: real \<times> int \<times> int.
      (fst (snd s) = -1 \<and> snd (snd s) = -1)
    \<or> (0 \<le> fst (snd s) \<and> fst (snd s) < sx V \<and> 0 \<le> snd (snd s) \<and> snd (snd s) < sy V)"
  have pick: "?P (pool_pick V d x y fx fy s)" if "?P s" for fx fy s
    using that by (cases s) (auto simp: pool_pick_def Let_def split: option.splits)
  have "?P (pool_window L V d x y)"
    unfolding pool_window_def
    by (intro fold_invariant[where P = ?P] pick) simp_all
  then show ?thesis using assms by simp
qed

lemma product_nth_at:
  assumes "a < length xs" "b < length ys"
  shows "a * length ys + b < length (List.product xs ys)"
    and "List.product xs ys ! (a * length ys + b) = (xs ! a, ys ! b)"
proof -
  have "a * length ys + b < a * length ys + length ys" using assms(2) by simp
  also have "\<dots> = Suc a * length ys" by simp
  also have "\<dots> \<le> length xs * length ys" using assms(1) by (intro mult_le_mono1) simp
  finally show lt: "a * length ys + b < length (List.product xs ys)" by simp
  have ne: "length ys \<noteq> 0" using assms(2) by auto
  have "(b + a * length ys) div length ys = a" "(b + a * length ys) mod length ys = b"
    using assms(2) ne by simp_all
  then have "(a * length ys + b) div length ys = a" "(a * length ys + b) mod length ys = b"
    by (simp_all add: add.commute)
  then show "List.product xs ys ! (a * length ys + b) = (xs ! a, ys ! b)"
    using lt by (simp add: product_nth)
qed

lemma cells_nth:
  assumes "0 \<le> d" "d < D" "0 \<le> ax" "ax < X" "0 \<le> ay" "ay < Y"
  shows "nat ((d * X + ax) * Y + ay)
           < length (List.product [0..D - 1] (List.product [0..X - 1] [0..Y - 1]))"
    and "List.product [0..D - 1] (List.product [0..X - 1] [0..Y - 1])
           ! nat ((d * X + ax) * Y + ay) = (d, ax, ay)"
proof -
  let ?ys = "List.product [0..X - 1] [0..Y - 1]"
  have l: "length [0..D - 1] = nat D" "length [0..X - 1] = nat X" "length [0..Y - 1] = nat Y"
    by simp_all
  have ly: "length ?ys = nat X * nat Y" by simp
  have e: "nat ((d * X + ax) * Y + ay) = nat d * length ?ys + (nat ax * length [0..Y - 1] + nat ay)"
    using assms by (simp add: nat_add_distrib nat_mult_distrib algebra_simps)
  have a: "nat d < length [0..D - 1]" "nat ax < length [0..X - 1]" "nat ay < length [0..Y - 1]"
    using assms by simp_all
  have i: "nat ax * length [0..Y - 1] + nat ay < length ?ys"
          "?ys ! (nat ax * length [0..Y - 1] + nat ay) = ([0..X - 1] ! nat ax, [0..Y - 1] ! nat ay)"
    using product_nth_at[OF a(2,3)] by simp_all
  have o: "nat d * length ?ys + (nat ax * length [0..Y - 1] + nat ay)
             < length (List.product [0..D - 1] ?ys)"
          "List.product [0..D - 1] ?ys ! (nat d * length ?ys + (nat ax * length [0..Y - 1] + nat ay))
             = ([0..D - 1] ! nat d, ?ys ! (nat ax * length [0..Y - 1] + nat ay))"
    using product_nth_at[OF a(1) i(1)] by simp_all
  show "nat ((d * X + ax) * Y + ay) < length (List.product [0..D - 1] ?ys)"
    using o(1) e by simp
  have "[0..D - 1] ! nat d = d" "[0..X - 1] ! nat ax = ax" "[0..Y - 1] ! nat ay = ay"
    using assms by (simp_all add: nth_upto)
  then show "List.product [0..D - 1] ?ys ! nat ((d * X + ax) * Y + ay) = (d, ax, ay)"
    using o(2) i(2) e by simp
qed

lemma switch_loop:
  fixes step :: "'c \<Rightarrow> nat \<times> int list \<times> int list \<times> vol \<Rightarrow> error + (nat \<times> int list \<times> int list \<times> vol)"
  assumes step: "\<And>c n sxs sys A.
     step c (n, sxs, sys, A) = Inr (Suc n, sxs[n := fx c], sys[n := fy c], g c A)"
  shows "\<exists>sxs' sys'. foldE step cs (n0, sxs, sys, A) = Inr (n0 + length cs, sxs', sys', fold g cs A)
        \<and> length sxs' = length sxs \<and> length sys' = length sys
        \<and> (\<forall>j<length cs. n0 + j < length sxs \<longrightarrow> sxs' ! (n0 + j) = fx (cs ! j))
        \<and> (\<forall>j<length cs. n0 + j < length sys \<longrightarrow> sys' ! (n0 + j) = fy (cs ! j))
        \<and> (\<forall>i<n0. sxs' ! i = sxs ! i) \<and> (\<forall>i<n0. sys' ! i = sys ! i)"
proof (induction cs arbitrary: n0 sxs sys A)
  case Nil
  show ?case by simp
next
  case (Cons c cs)
  obtain sxs' sys' where r:
    "foldE step cs (Suc n0, sxs[n0 := fx c], sys[n0 := fy c], g c A)
       = Inr (Suc n0 + length cs, sxs', sys', fold g cs (g c A))"
    "length sxs' = length sxs" "length sys' = length sys"
    "\<forall>j<length cs. Suc n0 + j < length sxs \<longrightarrow> sxs' ! (Suc n0 + j) = fx (cs ! j)"
    "\<forall>j<length cs. Suc n0 + j < length sys \<longrightarrow> sys' ! (Suc n0 + j) = fy (cs ! j)"
    "\<forall>i<Suc n0. sxs' ! i = (sxs[n0 := fx c]) ! i" "\<forall>i<Suc n0. sys' ! i = (sys[n0 := fy c]) ! i"
    using Cons.IH[of "Suc n0" "sxs[n0 := fx c]" "sys[n0 := fy c]" "g c A"] by auto
  have x: "\<forall>j<length (c # cs). n0 + j < length sxs \<longrightarrow> sxs' ! (n0 + j) = fx ((c # cs) ! j)"
  proof (intro allI impI)
    fix j assume j: "j < length (c # cs)" "n0 + j < length sxs"
    show "sxs' ! (n0 + j) = fx ((c # cs) ! j)"
    proof (cases j)
      case 0
      then show ?thesis using r(6) j(2) by simp
    next
      case (Suc j')
      then show ?thesis using r(4) j by simp
    qed
  qed
  have y: "\<forall>j<length (c # cs). n0 + j < length sys \<longrightarrow> sys' ! (n0 + j) = fy ((c # cs) ! j)"
  proof (intro allI impI)
    fix j assume j: "j < length (c # cs)" "n0 + j < length sys"
    show "sys' ! (n0 + j) = fy ((c # cs) ! j)"
    proof (cases j)
      case 0
      then show ?thesis using r(7) j(2) by simp
    next
      case (Suc j')
      then show ?thesis using r(5) j by simp
    qed
  qed
  have u: "\<forall>i<n0. sxs' ! i = sxs ! i" "\<forall>i<n0. sys' ! i = sys ! i"
    using r(6,7) by simp_all
  show ?case
    using step r(1,2,3) x y u by (intro exI[of _ sxs'] exI[of _ sys']) simp
qed

lemma set_v_Some: "set_v A ax ay d (Some a) = Inr (put_cell A ax ay d a)"
  by (simp add: set_v_def store_def put_cell_def)

lemma put_cell_frame:
  "sx (put_cell A ax ay d a) = sx A" "sy (put_cell A ax ay d a) = sy A"
  "depth (put_cell A ax ay d a) = depth A" "dw (put_cell A ax ay d a) = dw A"
  "length (w (put_cell A ax ay d a)) = length (w A)"
  by (simp_all add: put_cell_def)

lemma foldE_Inr: "foldE (\<lambda>c s. Inr (g c s)) cs s = Inr (fold g cs s)"
  by (induction cs arbitrary: s) simp_all

lemma fold_cells:
  fixes g :: "'c \<Rightarrow> vol \<Rightarrow> vol"
  assumes step: "\<And>c arr. c \<in> set cs \<Longrightarrow> length arr = n \<Longrightarrow>
                   g c (A0\<lparr>w := arr\<rparr>) = A0\<lparr>w := arr[k c := v c]\<rparr>"
    and inj: "inj_on k (set cs)"
    and len: "length arr0 = n"
  shows "\<exists>arr. fold g cs (A0\<lparr>w := arr0\<rparr>) = A0\<lparr>w := arr\<rparr> \<and> length arr = n
           \<and> (\<forall>c\<in>set cs. k c < n \<longrightarrow> arr ! k c = v c)"
proof -
  have "\<exists>arr. foldE (\<lambda>c s. Inr (g c s)) cs (A0\<lparr>w := arr0\<rparr>) = Inr (A0\<lparr>w := arr\<rparr>) \<and> length arr = n
           \<and> (\<forall>c\<in>set cs. k c < n \<longrightarrow> arr ! k c = v c)
           \<and> (\<forall>i. i \<notin> k ` set cs \<longrightarrow> arr ! i = arr0 ! i)"
    using step by (intro foldE_cells inj len) simp
  then show ?thesis by (auto simp: foldE_Inr)
qed

lemma pool_forward_cells:
  assumes wf: "pool_wf L V"
  shows "\<exists>sxs sys A. pool_forward L V
            = Inr (L\<lparr>p_switchx := sxs, p_switchy := sys, p_in_act := Some V, p_out_act := Some A\<rparr>, A)
        \<and> sx A = p_out_sx L \<and> sy A = p_out_sy L \<and> depth A = p_out_depth L
        \<and> int (length (w A)) = p_out_sx L * p_out_sy L * p_out_depth L
        \<and> int (length (dw A)) = p_out_sx L * p_out_sy L * p_out_depth L
        \<and> length sxs = length (p_switchx L) \<and> length sys = length (p_switchy L)
        \<and> (\<forall>d ax ay. 0 \<le> d \<and> d < p_out_depth L \<and> 0 \<le> ax \<and> ax < p_out_sx L
               \<and> 0 \<le> ay \<and> ay < p_out_sy L \<longrightarrow>
              (sxs ! switch_index L d ax ay, sys ! switch_index L d ax ay)
                = snd (pool_window L V d (- p_pad L + ax * p_stride L) (- p_pad L + ay * p_stride L)))
        \<and> (\<forall>d ax ay. 0 \<le> d \<and> d < p_out_depth L \<and> 0 \<le> ax \<and> ax < p_out_sx L
               \<and> 0 \<le> ay \<and> ay < p_out_sy L \<longrightarrow>
              get A ax ay d
                = Some (fst (pool_window L V d (- p_pad L + ax * p_stride L) (- p_pad L + ay * p_stride L))))"
proof -
  define N where "N = p_out_sx L * p_out_sy L * p_out_depth L"
  define A0 where "A0 = \<lparr>sx = p_out_sx L, sy = p_out_sy L, depth = p_out_depth L,
                          w = replicate (nat N) (0::real), dw = replicate (nat N) (0::real)\<rparr>"
  define cs where "cs = List.product [0..p_out_depth L - 1]
                          (List.product [0..p_out_sx L - 1] [0..p_out_sy L - 1])"
  define fx where "fx = (\<lambda>(d, ax, ay).
      fst (snd (pool_window L V d (- p_pad L + ax * p_stride L) (- p_pad L + ay * p_stride L))))"
  define fy where "fy = (\<lambda>(d, ax, ay).
      snd (snd (pool_window L V d (- p_pad L + ax * p_stride L) (- p_pad L + ay * p_stride L))))"
  define fv where "fv = (\<lambda>(d, ax, ay).
      fst (pool_window L V d (- p_pad L + ax * p_stride L) (- p_pad L + ay * p_stride L)))"
  define g where "g = (\<lambda>(d, ax, ay) A. put_cell A ax ay d (fv (d, ax, ay)))"
  define k where "k = (\<lambda>(d, ax, ay). nat ((p_out_sx L * ay + ax) * p_out_depth L + d))"
  have o: "0 \<le> p_out_sx L" "0 \<le> p_out_sy L" "0 \<le> p_out_depth L"
    and ls: "int (length (p_switchx L)) = N" "int (length (p_switchy L)) = N"
    using wf by (simp_all add: pool_wf_def N_def)
  have N: "0 \<le> N" using o by (simp add: N_def)
  then have N': "\<not> p_out_sx L * p_out_sy L * p_out_depth L < 0" by (simp add: N_def)
  have vol: "Vol (p_out_sx L) (p_out_sy L) (p_out_depth L) 0 = Inr A0"
    using N' by (simp add: Vol_def zeros_def A0_def N_def Let_def)
  have step: "(case c of (d, ax, ay) \<Rightarrow> pool_cell L V d ax ay) (n, sxs, sys, A)
                = Inr (Suc n, sxs[n := fx c], sys[n := fy c], g c A)" for c n sxs sys A
    by (cases c) (simp add: pool_cell_def Let_def set_v_Some fx_def fy_def fv_def g_def split: prod.splits)
  obtain sxs sys where r:
    "foldE (\<lambda>(d, ax, ay). pool_cell L V d ax ay) cs (0, p_switchx L, p_switchy L, A0)
       = Inr (0 + length cs, sxs, sys, fold g cs A0)"
    "length sxs = length (p_switchx L)" "length sys = length (p_switchy L)"
    "\<forall>j<length cs. 0 + j < length (p_switchx L) \<longrightarrow> sxs ! (0 + j) = fx (cs ! j)"
    "\<forall>j<length cs. 0 + j < length (p_switchy L) \<longrightarrow> sys ! (0 + j) = fy (cs ! j)"
    using switch_loop[of "\<lambda>(d, ax, ay). pool_cell L V d ax ay" fx fy g cs 0
            "p_switchx L" "p_switchy L" A0, OF step]
    by blast
  have inrange: "0 \<le> (p_out_sx L * ay + ax) * p_out_depth L + d"
                "(p_out_sx L * ay + ax) * p_out_depth L + d < N"
    if "0 \<le> d \<and> d < p_out_depth L \<and> 0 \<le> ax \<and> ax < p_out_sx L \<and> 0 \<le> ay \<and> ay < p_out_sy L"
    for d ax ay
    using flat_index_bounds[of ax "p_out_sx L" ay "p_out_sy L" d "p_out_depth L"] that
    by (simp_all add: N_def)
  have gstep: "g c (A0\<lparr>w := arr\<rparr>) = A0\<lparr>w := arr[k c := fv c]\<rparr>"
    if c: "c \<in> set cs" and l: "length arr = nat N" for c arr
  proof -
    obtain d ax ay where e: "c = (d, ax, ay)" by (cases c) auto
    have m: "0 \<le> d \<and> d < p_out_depth L \<and> 0 \<le> ax \<and> ax < p_out_sx L \<and> 0 \<le> ay \<and> ay < p_out_sy L"
      using c by (auto simp: e cs_def)
    show ?thesis
      using inrange[OF m] l
      by (simp add: e g_def k_def put_cell_def ix_def A0_def)
  qed
  have inj: "inj_on k (set cs)"
  proof (rule inj_onI)
    fix c c' assume c: "c \<in> set cs" and c': "c' \<in> set cs" and eq: "k c = k c'"
    obtain d ax ay where e: "c = (d, ax, ay)" by (cases c) auto
    obtain d' ax' ay' where e': "c' = (d', ax', ay')" by (cases c') auto
    have m: "0 \<le> d \<and> d < p_out_depth L \<and> 0 \<le> ax \<and> ax < p_out_sx L \<and> 0 \<le> ay \<and> ay < p_out_sy L"
      using c by (auto simp: e cs_def)
    have m': "0 \<le> d' \<and> d' < p_out_depth L \<and> 0 \<le> ax' \<and> ax' < p_out_sx L \<and> 0 \<le> ay' \<and> ay' < p_out_sy L"
      using c' by (auto simp: e' cs_def)
    have "(p_out_sx L * ay + ax) * p_out_depth L + d = (p_out_sx L * ay' + ax') * p_out_depth L + d'"
      using eq inrange(1)[OF m] inrange(1)[OF m'] by (simp add: k_def e e')
    from flat_index_inj[OF _ _ _ _ _ _ _ _ this] m m'
    show "c = c'" by (simp add: e e')
  qed
  have "A0 = A0\<lparr>w := replicate (nat N) 0\<rparr>" by (simp add: A0_def)
  then have "\<exists>arr. fold g cs A0 = A0\<lparr>w := arr\<rparr> \<and> length arr = nat N
           \<and> (\<forall>c\<in>set cs. k c < nat N \<longrightarrow> arr ! k c = fv c)"
    using fold_cells[of cs "nat N" g A0 k fv "replicate (nat N) 0", OF gstep inj] by simp
  then obtain arr where arr: "fold g cs A0 = A0\<lparr>w := arr\<rparr>" "length arr = nat N"
     "\<forall>c\<in>set cs. k c < nat N \<longrightarrow> arr ! k c = fv c"
    by blast
  let ?A = "A0\<lparr>w := arr\<rparr>"
  have flat: "foldE (\<lambda>d. foldE (\<lambda>ax. foldE (\<lambda>ay. pool_cell L V d ax ay)
                                  [0..p_out_sy L - 1]) [0..p_out_sx L - 1])
                  [0..p_out_depth L - 1] (0, p_switchx L, p_switchy L, A0)
              = foldE (\<lambda>(d, ax, ay). pool_cell L V d ax ay) cs (0, p_switchx L, p_switchy L, A0)"
    unfolding cs_def by (rule foldE_product3)
  have pf: "pool_forward L V
      = Inr (L\<lparr>p_switchx := sxs, p_switchy := sys, p_in_act := Some V, p_out_act := Some ?A\<rparr>, ?A)"
    using r(1) by (simp add: pool_forward_def vol flat arr(1))
  have sw: "(sxs ! switch_index L d ax ay, sys ! switch_index L d ax ay)
                = snd (pool_window L V d (- p_pad L + ax * p_stride L) (- p_pad L + ay * p_stride L))"
    if "0 \<le> d \<and> d < p_out_depth L \<and> 0 \<le> ax \<and> ax < p_out_sx L \<and> 0 \<le> ay \<and> ay < p_out_sy L"
    for d ax ay
  proof -
    have c: "switch_index L d ax ay < length cs" "cs ! switch_index L d ax ay = (d, ax, ay)"
      using cells_nth[of d "p_out_depth L" ax "p_out_sx L" ay "p_out_sy L"] that
      by (simp_all add: cs_def switch_index_def)
    have "length cs = nat N" using o by (simp add: cs_def N_def nat_mult_distrib mult.commute mult.left_commute)
    then have "switch_index L d ax ay < length (p_switchx L)"
              "switch_index L d ax ay < length (p_switchy L)"
      using c(1) ls by linarith+
    then have "sxs ! switch_index L d ax ay = fx (d, ax, ay)"
              "sys ! switch_index L d ax ay = fy (d, ax, ay)"
      using r(4,5) c by auto
    then show ?thesis by (simp add: fx_def fy_def)
  qed
  have val: "get ?A ax ay d
       = Some (fst (pool_window L V d (- p_pad L + ax * p_stride L) (- p_pad L + ay * p_stride L)))"
    if m: "0 \<le> d \<and> d < p_out_depth L \<and> 0 \<le> ax \<and> ax < p_out_sx L \<and> 0 \<le> ay \<and> ay < p_out_sy L"
    for d ax ay
  proof -
    have c: "(d, ax, ay) \<in> set cs" using m by (simp add: cs_def)
    have kk: "k (d, ax, ay) < nat N" using inrange[OF m] by (simp add: k_def)
    then have "arr ! k (d, ax, ay) = fv (d, ax, ay)" using arr(3) c by blast
    then show ?thesis
      using inrange[OF m] arr(2)
      by (simp add: get_def rd_def ix_def A0_def k_def fv_def)
  qed
  show ?thesis
    using pf arr(2) r(2,3) sw val N
    by (intro exI[of _ sxs] exI[of _ sys] exI[of _ ?A]) (simp add: A0_def N_def)
qed

lemma fold_product:
  "fold (\<lambda>x. fold (\<lambda>y. f x y) ys) xs s = fold (\<lambda>(x, y). f x y) (List.product xs ys) s"
  by (induction xs arbitrary: s) (simp_all add: fold_map comp_def)

lemma pool_pick_window_value:
  "pool_pick V d x y fx fy (a, c1, c2)
     = (case window_value V d (x + fx) (y + fy) of None \<Rightarrow> (a, c1, c2)
        | Some v \<Rightarrow> if v > a then (v, x + fx, y + fy) else (a, c1, c2))"
  by (simp add: pool_pick_def window_value_def Let_def)

lemma pool_scan:
  fixes ps :: "(int \<times> int) list"
  shows "case fold (\<lambda>(fx, fy). pool_pick V d x y fx fy) ps (a0, -1, -1) of (a, wx, wy) \<Rightarrow>
      (\<forall>p\<in>set ps. \<forall>v. window_value V d (x + fst p) (y + snd p) = Some v \<longrightarrow> v \<le> a)
      \<and> ((a = a0 \<and> wx = -1 \<and> wy = -1)
         \<or> (a0 < a \<and> (\<exists>i<length ps. wx = x + fst (ps ! i) \<and> wy = y + snd (ps ! i)
               \<and> window_value V d wx wy = Some a
               \<and> (\<forall>j<i. \<forall>v. window_value V d (x + fst (ps ! j)) (y + snd (ps ! j)) = Some v
                      \<longrightarrow> v < a))))"
proof (induction ps rule: rev_induct)
  case Nil
  show ?case by simp
next
  case (snoc p ps)
  obtain a wx wy where s: "fold (\<lambda>(fx, fy). pool_pick V d x y fx fy) ps (a0, -1, -1) = (a, wx, wy)"
    by (cases "fold (\<lambda>(fx, fy). pool_pick V d x y fx fy) ps (a0, -1, -1)") auto
  obtain fx fy where p: "p = (fx, fy)" by (cases p) auto
  have le: "\<forall>q\<in>set ps. \<forall>v. window_value V d (x + fst q) (y + snd q) = Some v \<longrightarrow> v \<le> a"
    and win: "(a = a0 \<and> wx = -1 \<and> wy = -1)
         \<or> (a0 < a \<and> (\<exists>i<length ps. wx = x + fst (ps ! i) \<and> wy = y + snd (ps ! i)
               \<and> window_value V d wx wy = Some a
               \<and> (\<forall>j<i. \<forall>v. window_value V d (x + fst (ps ! j)) (y + snd (ps ! j)) = Some v
                      \<longrightarrow> v < a)))"
    using snoc.IH s by simp_all
  have a0: "a0 \<le> a" using win by auto
  show ?case
  proof (cases "\<exists>v. window_value V d (x + fx) (y + fy) = Some v \<and> v > a")
    case True
    then obtain v where v: "window_value V d (x + fx) (y + fy) = Some v" "v > a" by blast
    have st: "fold (\<lambda>(fx, fy). pool_pick V d x y fx fy) (ps @ [p]) (a0, -1, -1) = (v, x + fx, y + fy)"
      using s v by (simp add: p pool_pick_window_value)
    have 1: "\<forall>q\<in>set (ps @ [p]). \<forall>u. window_value V d (x + fst q) (y + snd q) = Some u \<longrightarrow> u \<le> v"
      using le v by (auto simp: p)
    have 2: "\<forall>j<length ps. \<forall>u. window_value V d (x + fst ((ps @ [p]) ! j)) (y + snd ((ps @ [p]) ! j)) = Some u
                \<longrightarrow> u < v"
    proof (intro allI impI)
      fix j u assume j: "j < length ps"
        and u: "window_value V d (x + fst ((ps @ [p]) ! j)) (y + snd ((ps @ [p]) ! j)) = Some u"
      have m: "ps ! j \<in> set ps" using j by simp
      have "window_value V d (x + fst (ps ! j)) (y + snd (ps ! j)) = Some u"
        using u j by (simp add: nth_append)
      with le m have "u \<le> a" by blast
      then show "u < v" using v(2) by simp
    qed
    have 3: "a0 < v" using a0 v(2) by simp
    have 4: "\<exists>i<length (ps @ [p]). x + fx = x + fst ((ps @ [p]) ! i) \<and> y + fy = y + snd ((ps @ [p]) ! i)
               \<and> window_value V d (x + fx) (y + fy) = Some v
               \<and> (\<forall>j<i. \<forall>u. window_value V d (x + fst ((ps @ [p]) ! j)) (y + snd ((ps @ [p]) ! j)) = Some u
                      \<longrightarrow> u < v)"
      using v(1) 2 by (intro exI[of _ "length ps"]) (simp add: p)
    show ?thesis unfolding st using 1 3 4 by (simp only: prod.case) blast
  next
    case False
    then have st: "fold (\<lambda>(fx, fy). pool_pick V d x y fx fy) (ps @ [p]) (a0, -1, -1) = (a, wx, wy)"
      using s by (auto simp add: p pool_pick_window_value split: option.splits)
    have 1: "\<forall>q\<in>set (ps @ [p]). \<forall>u. window_value V d (x + fst q) (y + snd q) = Some u \<longrightarrow> u \<le> a"
      using le False by (auto simp: p not_less)
    have 2: "(a = a0 \<and> wx = -1 \<and> wy = -1)
         \<or> (a0 < a \<and> (\<exists>i<length (ps @ [p]). wx = x + fst ((ps @ [p]) ! i) \<and> wy = y + snd ((ps @ [p]) ! i)
               \<and> window_value V d wx wy = Some a
               \<and> (\<forall>j<i. \<forall>v. window_value V d (x + fst ((ps @ [p]) ! j)) (y + snd ((ps @ [p]) ! j)) = Some v
                      \<longrightarrow> v < a)))"
      using win
    proof
      assume "a = a0 \<and> wx = -1 \<and> wy = -1"
      then show ?thesis by simp
    next
      assume w: "a0 < a \<and> (\<exists>i<length ps. wx = x + fst (ps ! i) \<and> wy = y + snd (ps ! i)
               \<and> window_value V d wx wy = Some a
               \<and> (\<forall>j<i. \<forall>v. window_value V d (x + fst (ps ! j)) (y + snd (ps ! j)) = Some v
                      \<longrightarrow> v < a))"
      then obtain i where i: "i < length ps" "wx = x + fst (ps ! i)" "wy = y + snd (ps ! i)"
        "window_value V d wx wy = Some a"
        "\<forall>j<i. \<forall>v. window_value V d (x + fst (ps ! j)) (y + snd (ps ! j)) = Some v \<longrightarrow> v < a"
        by blast
      have "\<forall>j<i. \<forall>v. window_value V d (x + fst ((ps @ [p]) ! j)) (y + snd ((ps @ [p]) ! j)) = Some v
                      \<longrightarrow> v < a"
        using i(1,5) by (simp add: nth_append)
      then show ?thesis
        using w i(1,2,3,4)
        by (intro disjI2 conjI exI[of _ i]) (simp_all add: nth_append)
    qed
    show ?thesis unfolding st using 1 2 by (simp only: prod.case)
  qed
qed

lemma window_nth:
  assumes "0 \<le> fx" "fx < n" "0 \<le> fy" "fy < m"
  shows "nat fx * nat m + nat fy < length (List.product [0..n - 1] [0..m - 1])"
    and "List.product [0..n - 1] [0..m - 1] ! (nat fx * nat m + nat fy) = (fx, fy)"
proof -
  have a: "nat fx < length [0..n - 1]" "nat fy < length [0..m - 1]"
    using assms by simp_all
  have l: "length [0..m - 1] = nat m" by simp
  have e: "[0..n - 1] ! nat fx = fx" "[0..m - 1] ! nat fy = fy"
    using assms by (simp_all add: nth_upto)
  show "nat fx * nat m + nat fy < length (List.product [0..n - 1] [0..m - 1])"
    using product_nth_at(1)[OF a] unfolding l .
  show "List.product [0..n - 1] [0..m - 1] ! (nat fx * nat m + nat fy) = (fx, fy)"
    using product_nth_at(2)[OF a] unfolding l e .
qed

lemma window_position:
  assumes "i < length (List.product [0..n - 1] [0..m - 1])"
  shows "\<exists>fx fy. List.product [0..n - 1] [0..m - 1] ! i = (fx, fy)
           \<and> 0 \<le> fx \<and> fx < n \<and> 0 \<le> fy \<and> fy < m \<and> nat fx * nat m + nat fy = i"
proof -
  let ?ps = "List.product [0..n - 1] [0..m - 1]"
  obtain fx fy where c: "?ps ! i = (fx, fy)" by (cases "?ps ! i") auto
  have "?ps ! i \<in> set ?ps" using assms by (rule nth_mem)
  then have r: "0 \<le> fx" "fx < n" "0 \<le> fy" "fy < m"
    using c by auto
  have k: "nat fx * nat m + nat fy < length ?ps" "?ps ! (nat fx * nat m + nat fy) = (fx, fy)"
    using window_nth[OF r] by simp_all
  have "distinct ?ps" by (simp add: distinct_product)
  moreover have "?ps ! (nat fx * nat m + nat fy) = ?ps ! i" using k(2) c by simp
  ultimately have "nat fx * nat m + nat fy = i"
    using k(1) assms nth_eq_iff_index_eq by blast
  then show ?thesis using c r by blast
qed

lemma scanned_before:
  fixes fx fy fx' fy' m :: int
  assumes "0 \<le> fx'" "0 \<le> fy'" "fy' < m" "0 \<le> fy" "fx' < fx \<or> (fx' = fx \<and> fy' < fy)"
  shows "nat fx' * nat m + nat fy' < nat fx * nat m + nat fy"
  using assms(5)
proof
  assume lt: "fx' < fx"
  then have s: "Suc (nat fx') \<le> nat fx" using assms(1) by simp
  have "nat fy' < nat m" using assms(2,3) by simp
  then have "nat fx' * nat m + nat fy' < Suc (nat fx') * nat m" by simp
  also have "\<dots> \<le> nat fx * nat m" using s by (rule mult_le_mono1)
  also have "\<dots> \<le> nat fx * nat m + nat fy" by simp
  finally show ?thesis .
next
  assume "fx' = fx \<and> fy' < fy"
  then show ?thesis using assms(2) by simp
qed

lemma pool_window_max:
  assumes pw: "pool_window L V d x y = (a, wx, wy)"
  shows "\<forall>fx fy v. 0 \<le> fx \<and> fx < p_sx L \<and> 0 \<le> fy \<and> fy < p_sy L
            \<and> window_value V d (x + fx) (y + fy) = Some v \<longrightarrow> v \<le> a"
    and "(a = -99999 \<and> wx = -1 \<and> wy = -1)
       \<or> (-99999 < a \<and> (\<exists>fx fy. 0 \<le> fx \<and> fx < p_sx L \<and> 0 \<le> fy \<and> fy < p_sy L
             \<and> wx = x + fx \<and> wy = y + fy \<and> window_value V d wx wy = Some a
             \<and> (\<forall>fx' fy' v. 0 \<le> fx' \<and> fx' < p_sx L \<and> 0 \<le> fy' \<and> fy' < p_sy L
                   \<and> (fx' < fx \<or> (fx' = fx \<and> fy' < fy))
                   \<and> window_value V d (x + fx') (y + fy') = Some v \<longrightarrow> v < a)))"
proof -
  let ?ps = "List.product [0..p_sx L - 1] [0..p_sy L - 1]"
  have "pool_window L V d x y = fold (\<lambda>(fx, fy). pool_pick V d x y fx fy) ?ps (-99999, -1, -1)"
    unfolding pool_window_def by (rule fold_product)
  then have st: "fold (\<lambda>(fx, fy). pool_pick V d x y fx fy) ?ps (-99999, -1, -1) = (a, wx, wy)"
    using pw by simp
  from pool_scan[where V = V and d = d and x = x and y = y and ps = ?ps and ?a0.0 = "-99999"]
  have le: "\<forall>p\<in>set ?ps. \<forall>v. window_value V d (x + fst p) (y + snd p) = Some v \<longrightarrow> v \<le> a"
    and win: "(a = -99999 \<and> wx = -1 \<and> wy = -1)
         \<or> (-99999 < a \<and> (\<exists>i<length ?ps. wx = x + fst (?ps ! i) \<and> wy = y + snd (?ps ! i)
               \<and> window_value V d wx wy = Some a
               \<and> (\<forall>j<i. \<forall>v. window_value V d (x + fst (?ps ! j)) (y + snd (?ps ! j)) = Some v
                      \<longrightarrow> v < a)))"
    unfolding st by simp_all
  show "\<forall>fx fy v. 0 \<le> fx \<and> fx < p_sx L \<and> 0 \<le> fy \<and> fy < p_sy L
            \<and> window_value V d (x + fx) (y + fy) = Some v \<longrightarrow> v \<le> a"
  proof (intro allI impI)
    fix fx fy v
    assume h: "0 \<le> fx \<and> fx < p_sx L \<and> 0 \<le> fy \<and> fy < p_sy L
            \<and> window_value V d (x + fx) (y + fy) = Some v"
    then have "(fx, fy) \<in> set ?ps" by simp
    with le h show "v \<le> a" by fastforce
  qed
  from win show "(a = -99999 \<and> wx = -1 \<and> wy = -1)
       \<or> (-99999 < a \<and> (\<exists>fx fy. 0 \<le> fx \<and> fx < p_sx L \<and> 0 \<le> fy \<and> fy < p_sy L
             \<and> wx = x + fx \<and> wy = y + fy \<and> window_value V d wx wy = Some a
             \<and> (\<forall>fx' fy' v. 0 \<le> fx' \<and> fx' < p_sx L \<and> 0 \<le> fy' \<and> fy' < p_sy L
                   \<and> (fx' < fx \<or> (fx' = fx \<and> fy' < fy))
                   \<and> window_value V d (x + fx') (y + fy') = Some v \<longrightarrow> v < a)))"
  proof
    assume "a = -99999 \<and> wx = -1 \<and> wy = -1"
    then show ?thesis by simp
  next
    assume w: "-99999 < a \<and> (\<exists>i<length ?ps. wx = x + fst (?ps ! i) \<and> wy = y + snd (?ps ! i)
               \<and> window_value V d wx wy = Some a
               \<and> (\<forall>j<i. \<forall>v. window_value V d (x + fst (?ps ! j)) (y + snd (?ps ! j)) = Some v
                      \<longrightarrow> v < a))"
    then obtain i where i: "i < length ?ps" "wx = x + fst (?ps ! i)" "wy = y + snd (?ps ! i)"
        "window_value V d wx wy = Some a"
        "\<forall>j<i. \<forall>v. window_value V d (x + fst (?ps ! j)) (y + snd (?ps ! j)) = Some v \<longrightarrow> v < a"
      by blast
    from window_position[OF i(1)] obtain fx fy where
      f: "?ps ! i = (fx, fy)" "0 \<le> fx" "fx < p_sx L" "0 \<le> fy" "fy < p_sy L"
         "nat fx * nat (p_sy L) + nat fy = i"
      by blast
    have before: "v < a"
      if h: "0 \<le> fx' \<and> fx' < p_sx L \<and> 0 \<le> fy' \<and> fy' < p_sy L
                   \<and> (fx' < fx \<or> (fx' = fx \<and> fy' < fy))
                   \<and> window_value V d (x + fx') (y + fy') = Some v" for fx' fy' v
    proof -
      let ?j = "nat fx' * nat (p_sy L) + nat fy'"
      have "?j < nat fx * nat (p_sy L) + nat fy"
        using h f(4) by (intro scanned_before) simp_all
      then have j: "?j < i" using f(6) by simp
      have "?ps ! ?j = (fx', fy')" using h by (intro window_nth(2)) simp_all
      then have "window_value V d (x + fst (?ps ! ?j)) (y + snd (?ps ! ?j)) = Some v"
        using h by simp
      with i(5) j show ?thesis by blast
    qed
    have "\<exists>fx fy. 0 \<le> fx \<and> fx < p_sx L \<and> 0 \<le> fy \<and> fy < p_sy L
             \<and> wx = x + fx \<and> wy = y + fy \<and> window_value V d wx wy = Some a
             \<and> (\<forall>fx' fy' v. 0 \<le> fx' \<and> fx' < p_sx L \<and> 0 \<le> fy' \<and> fy' < p_sy L
                   \<and> (fx' < fx \<or> (fx' = fx \<and> fy' < fy))
                   \<and> window_value V d (x + fx') (y + fy') = Some v \<longrightarrow> v < a)"
      using f(2,3,4,5) i(2,3,4) before
      by (intro exI[of _ fx] exI[of _ fy]) (simp add: f(1))
    with w show ?thesis by blast
  qed
qed

lemmas pool_eval = upto_small pool_forward_def pool_cell_def pool_window_def pool_pick_def
  pool_backward_def pool_back_cell_def pool_wf_def Vol_def zeros_def rd_def store_def
  add_to_def get_def set_v_def get_grad_def add_grad_def ix_def oadd_def Let_def

lemma ex_pool_forward:
  "pool_forward ex_pool ex_pool_input
     = Inr (ex_pool\<lparr>p_switchx := [0], p_switchy := [1], p_in_act := Some ex_pool_input,
               p_out_act := Some \<lparr>sx = 1, sy = 1, depth = 1, w = [3], dw = [0]\<rparr>\<rparr>,
            \<lparr>sx = 1, sy = 1, depth = 1, w = [3], dw = [0]\<rparr>)"
  by (simp add: ex_pool_def ex_pool_input_def pool_eval)

lemma pool_forward_max:
  assumes wf: "pool_wf L V" and fwd: "pool_forward L V = Inr (L1, A)"
    and r: "0 \<le> d" "d < p_out_depth L" "0 \<le> ax" "ax < p_out_sx L" "0 \<le> ay" "ay < p_out_sy L"
    and x: "x = - p_pad L + ax * p_stride L" and y: "y = - p_pad L + ay * p_stride L"
    and some: "0 \<le> fx0" "fx0 < p_sx L" "0 \<le> fy0" "fy0 < p_sy L"
      "window_value V d (x + fx0) (y + fy0) = Some v0" "-99999 < v0"
  shows "\<exists>a fx fy. get A ax ay d = Some a
      \<and> 0 \<le> fx \<and> fx < p_sx L \<and> 0 \<le> fy \<and> fy < p_sy L
      \<and> p_switchx L1 ! switch_index L d ax ay = x + fx
      \<and> p_switchy L1 ! switch_index L d ax ay = y + fy
      \<and> window_value V d (x + fx) (y + fy) = Some a
      \<and> (\<forall>fx' fy' v. 0 \<le> fx' \<and> fx' < p_sx L \<and> 0 \<le> fy' \<and> fy' < p_sy L
             \<and> window_value V d (x + fx') (y + fy') = Some v \<longrightarrow> v \<le> a)
      \<and> (\<forall>fx' fy' v. 0 \<le> fx' \<and> fx' < p_sx L \<and> 0 \<le> fy' \<and> fy' < p_sy L
             \<and> (fx' < fx \<or> (fx' = fx \<and> fy' < fy))
             \<and> window_value V d (x + fx') (y + fy') = Some v \<longrightarrow> v < a)"
proof -
  obtain a wx wy where pw: "pool_window L V d x y = (a, wx, wy)"
    by (cases "pool_window L V d x y") auto
  from pool_forward_cells[OF wf] fwd obtain sxs sys where
    L1: "L1 = L\<lparr>p_switchx := sxs, p_switchy := sys, p_in_act := Some V, p_out_act := Some A\<rparr>"
    and sw: "\<And>d ax ay. 0 \<le> d \<and> d < p_out_depth L \<and> 0 \<le> ax \<and> ax < p_out_sx L
               \<and> 0 \<le> ay \<and> ay < p_out_sy L \<Longrightarrow>
              (sxs ! switch_index L d ax ay, sys ! switch_index L d ax ay)
                = snd (pool_window L V d (- p_pad L + ax * p_stride L) (- p_pad L + ay * p_stride L))"
    and val: "\<And>d ax ay. 0 \<le> d \<and> d < p_out_depth L \<and> 0 \<le> ax \<and> ax < p_out_sx L
               \<and> 0 \<le> ay \<and> ay < p_out_sy L \<Longrightarrow>
              get A ax ay d
                = Some (fst (pool_window L V d (- p_pad L + ax * p_stride L) (- p_pad L + ay * p_stride L)))"
    by auto
  have g: "get A ax ay d = Some a" using val[of d ax ay] r pw by (simp add: x y)
  have s: "p_switchx L1 ! switch_index L d ax ay = wx" "p_switchy L1 ! switch_index L d ax ay = wy"
    using sw[of d ax ay] r pw by (simp_all add: x y L1)
  note le = pool_window_max(1)[OF pw] and win = pool_window_max(2)[OF pw]
  have "v0 \<le> a" using le some(1-5) by blast
  then have "-99999 < a" using some(6) by simp
  with win obtain fx fy where f: "0 \<le> fx" "fx < p_sx L" "0 \<le> fy" "fy < p_sy L"
      "wx = x + fx" "wy = y + fy" "window_value V d wx wy = Some a"
      "\<forall>fx' fy' v. 0 \<le> fx' \<and> fx' < p_sx L \<and> 0 \<le> fy' \<and> fy' < p_sy L
                   \<and> (fx' < fx \<or> (fx' = fx \<and> fy' < fy))
                   \<and> window_value V d (x + fx') (y + fy') = Some v \<longrightarrow> v < a"
    by auto
  show ?thesis
    apply (rule exI[of _ a], rule exI[of _ fx], rule exI[of _ fy])
    using g f(1-4) s f(5,6) f(7)[unfolded f(5,6)] le f(8) by (intro conjI) simp_all
qed

text \<open>
  The lemma at the layer and input of the example, where the largest value occurs twice:
  the switch is the coordinate scanned first.
\<close>

lemma pool_forward_max_tie:
  "pool_wf ex_pool ex_pool_input
   \<and> window_value ex_pool_input 0 0 1 = Some 3 \<and> window_value ex_pool_input 0 1 0 = Some 3
   \<and> (\<exists>L1 A a fx fy. pool_forward ex_pool ex_pool_input = Inr (L1, A)
        \<and> get A 0 0 0 = Some a
        \<and> p_switchx L1 ! switch_index ex_pool 0 0 0 = 0 + fx
        \<and> p_switchy L1 ! switch_index ex_pool 0 0 0 = 0 + fy
        \<and> a = 3 \<and> fx = 0 \<and> fy = 1)"
proof -
  have wf: "pool_wf ex_pool ex_pool_input"
    by (simp add: pool_wf_def ex_pool_def ex_pool_input_def)
  have v: "window_value ex_pool_input 0 0 1 = Some 3" "window_value ex_pool_input 0 1 0 = Some 3"
    by (simp_all add: window_value_def ex_pool_input_def get_def rd_def ix_def)
  have r: "(0::int) \<le> 0" "0 < p_out_depth ex_pool" "0 < p_out_sx ex_pool" "0 < p_out_sy ex_pool"
    "0 = - p_pad ex_pool + 0 * p_stride ex_pool" "0 < p_sx ex_pool" "(0::int) \<le> 1" "1 < p_sy ex_pool"
    "window_value ex_pool_input 0 (0 + 0) (0 + 1) = Some 3" "- 99999 < (3::real)"
    using v by (simp_all add: ex_pool_def)
  from pool_forward_max[OF wf ex_pool_forward r(1) r(2) r(1) r(3) r(1) r(4) r(5) r(5) r(1) r(6) r(7) r(8) r(9) r(10)]
  obtain a fx fy where m: "get \<lparr>sx = 1, sy = 1, depth = 1, w = [3], dw = [0]\<rparr> 0 0 0 = Some a"
      "(p_switchx (ex_pool\<lparr>p_switchx := [0], p_switchy := [1], p_in_act := Some ex_pool_input,
               p_out_act := Some \<lparr>sx = 1, sy = 1, depth = 1, w = [3], dw = [0]\<rparr>\<rparr>))
         ! switch_index ex_pool 0 0 0 = 0 + fx"
      "(p_switchy (ex_pool\<lparr>p_switchx := [0], p_switchy := [1], p_in_act := Some ex_pool_input,
               p_out_act := Some \<lparr>sx = 1, sy = 1, depth = 1, w = [3], dw = [0]\<rparr>\<rparr>))
         ! switch_index ex_pool 0 0 0 = 0 + fy"
    by blast
  have a: "a = 3" using m(1) by (simp add: get_def rd_def ix_def)
  have f: "fx = 0" "fy = 1" using m(2,3) by (simp_all add: switch_index_def ex_pool_def)
  show ?thesis
    using wf v m a f ex_pool_forward by simp
qed

text \<open>
  C2. Max-pooling forward. The scan starts from the value \<open>-99999\<close> and the coordinate
  \<open>(-1, -1)\<close>, so the output of a cell is the true maximum of its window only if some
  in-range value of the window is above \<open>-99999\<close> (lemma \<open>pool_forward_max\<close>: then the
  switch is the first-scanned coordinate that holds the maximum). On the layer built by
  the constructor for a \<open>2 \<times> 2\<close> window over a \<open>2 \<times> 2 \<times> 1\<close> input, with the input values
  \<open>-100000\<close>, \<open>-200000\<close>, \<open>-150000\<close>, \<open>-120000\<close>, the output cell is \<open>-99999\<close>, which is no
  value of the window (the maximum is \<open>-100000\<close>), and the switch is \<open>(-1, -1)\<close>, which is
  no coordinate of the input.
\<close>

theorem pool_forward_below_sentinel:
  "PoolLayer ((new_def ''pool'')\<lparr>o_sx := Some 2, o_in_sx := Some 2, o_in_sy := Some 2,
                                  o_in_depth := Some 1\<rparr>) = Inr ex_pool
   \<and> pool_wf ex_pool ex_low_input
   \<and> pool_forward ex_pool ex_low_input
       = Inr (ex_pool\<lparr>p_switchx := [-1], p_switchy := [-1], p_in_act := Some ex_low_input,
                 p_out_act := Some \<lparr>sx = 1, sy = 1, depth = 1, w = [-99999], dw = [0]\<rparr>\<rparr>,
              \<lparr>sx = 1, sy = 1, depth = 1, w = [-99999], dw = [0]\<rparr>)
   \<and> get ex_low_input 0 0 0 = Some (-100000) \<and> get ex_low_input 0 1 0 = Some (-150000)
   \<and> get ex_low_input 1 0 0 = Some (-200000) \<and> get ex_low_input 1 1 0 = Some (-120000)"
proof (intro conjI)
  show "PoolLayer ((new_def ''pool'')\<lparr>o_sx := Some 2, o_in_sx := Some 2, o_in_sy := Some 2,
                                  o_in_depth := Some 1\<rparr>) = Inr ex_pool"
    using out_size_exact[of 2 0 2 2]
    by (simp add: PoolLayer_def new_def_def dflt_def switch_zeros_def zeros_def ex_pool_def)
  show "pool_wf ex_pool ex_low_input"
    by (simp add: pool_wf_def ex_pool_def ex_low_input_def)
  show "pool_forward ex_pool ex_low_input
       = Inr (ex_pool\<lparr>p_switchx := [-1], p_switchy := [-1], p_in_act := Some ex_low_input,
                 p_out_act := Some \<lparr>sx = 1, sy = 1, depth = 1, w = [-99999], dw = [0]\<rparr>\<rparr>,
              \<lparr>sx = 1, sy = 1, depth = 1, w = [-99999], dw = [0]\<rparr>)"
    by (simp add: ex_pool_def ex_low_input_def pool_eval)
qed (simp_all add: ex_low_input_def get_def rd_def ix_def)

subsection \<open>PoolLayer: backward\<close>

lemma cells_positions:
  assumes "j < length (List.product [0..D - 1] (List.product [0..X - 1] [0..Y - 1]))"
  shows "\<exists>d ax ay. List.product [0..D - 1] (List.product [0..X - 1] [0..Y - 1]) ! j = (d, ax, ay)
           \<and> 0 \<le> d \<and> d < D \<and> 0 \<le> ax \<and> ax < X \<and> 0 \<le> ay \<and> ay < Y
           \<and> nat ((d * X + ax) * Y + ay) = j"
proof -
  let ?cs = "List.product [0..D - 1] (List.product [0..X - 1] [0..Y - 1])"
  obtain d ax ay where c: "?cs ! j = (d, ax, ay)" by (cases "?cs ! j") auto
  have "?cs ! j \<in> set ?cs" using assms by (rule nth_mem)
  then have r: "0 \<le> d" "d < D" "0 \<le> ax" "ax < X" "0 \<le> ay" "ay < Y"
    using c by auto
  have n: "nat ((d * X + ax) * Y + ay) < length ?cs" "?cs ! nat ((d * X + ax) * Y + ay) = (d, ax, ay)"
    using cells_nth[OF r] by simp_all
  have "distinct ?cs" by (simp add: distinct_product)
  moreover have "?cs ! nat ((d * X + ax) * Y + ay) = ?cs ! j" using n(2) c by simp
  ultimately have "nat ((d * X + ax) * Y + ay) = j"
    using n(1) assms nth_eq_iff_index_eq by blast
  then show ?thesis using c r by blast
qed

lemma oadd_None: "oadd None b = None"
  by (simp add: oadd_def)

lemma fold_oadd_None: "fold (\<lambda>g a. oadd a (Some g)) gs None = None"
  by (induction gs) (simp_all add: oadd_None)

lemma fold_oadd_prefix:
  assumes "fold (\<lambda>g a. oadd a (Some g)) (xs @ ys) a \<noteq> None"
  shows "fold (\<lambda>g a. oadd a (Some g)) xs a \<noteq> None"
proof
  assume "fold (\<lambda>g a. oadd a (Some g)) xs a = None"
  then have "fold (\<lambda>g a. oadd a (Some g)) (xs @ ys) a = None" by (simp add: fold_oadd_None)
  with assms show False by simp
qed

lemma add_to_cases:
  "add_to a i (Some x) =
     (if 0 \<le> i \<and> i < int (length a)
      then (case oadd (Some (a ! nat i)) (Some x) of None \<Rightarrow> Inl NonReal
            | Some y \<Rightarrow> Inr (a[nat i := y]))
      else Inr a)"
  by (simp add: add_to_def store_def rd_def oadd_def)

lemma accumulate_loop:
  fixes step :: "'c \<Rightarrow> nat \<times> vol \<Rightarrow> error + (nat \<times> vol)"
  assumes step: "\<And>j D. j < length cs \<Longrightarrow> length D = n \<Longrightarrow>
      step (cs ! j) (j, V0\<lparr>dw := D\<rparr>)
        = (case add_to D (t (cs ! j)) (Some (q (cs ! j))) of Inl e \<Rightarrow> Inl e
           | Inr D' \<Rightarrow> Inr (Suc j, V0\<lparr>dw := D'\<rparr>))"
    and fin: "\<And>i. i < n \<Longrightarrow> accumulate (map q (filter (\<lambda>c. t c = int i) cs)) \<noteq> None"
    and k: "k \<le> length cs"
  shows "\<exists>D. foldE step (take k cs) (0, V0\<lparr>dw := replicate n 0\<rparr>) = Inr (k, V0\<lparr>dw := D\<rparr>)
           \<and> length D = n
           \<and> (\<forall>i<n. accumulate (map q (filter (\<lambda>c. t c = int i) (take k cs))) = Some (D ! i))"
  using k
proof (induction k)
  case 0
  show ?case by (intro exI[of _ "replicate n 0"]) (simp add: accumulate_def)
next
  case (Suc k)
  then have kl: "k < length cs" by simp
  from Suc.IH kl obtain D where D:
    "foldE step (take k cs) (0, V0\<lparr>dw := replicate n 0\<rparr>) = Inr (k, V0\<lparr>dw := D\<rparr>)"
    "length D = n"
    "\<forall>i<n. accumulate (map q (filter (\<lambda>c. t c = int i) (take k cs))) = Some (D ! i)"
    by auto
  let ?c = "cs ! k"
  have tk: "take (Suc k) cs = take k cs @ [?c]" using kl by (rule take_Suc_conv_app_nth)
  have fe: "foldE step (take (Suc k) cs) (0, V0\<lparr>dw := replicate n 0\<rparr>) = step ?c (k, V0\<lparr>dw := D\<rparr>)"
    by (simp add: tk foldE_append D(1) split: sum.splits)
  have pre: "accumulate (map q (filter (\<lambda>c. t c = int i) (take (Suc k) cs))) \<noteq> None" if "i < n" for i
  proof -
    have "cs = take (Suc k) cs @ drop (Suc k) cs" by simp
    then have "map q (filter (\<lambda>c. t c = int i) cs)
        = map q (filter (\<lambda>c. t c = int i) (take (Suc k) cs))
          @ map q (filter (\<lambda>c. t c = int i) (drop (Suc k) cs))"
      by (metis filter_append map_append)
    then show ?thesis
      using fin[OF that] fold_oadd_prefix unfolding accumulate_def by metis
  qed
  show ?case
  proof (cases "0 \<le> t ?c \<and> t ?c < int n")
    case False
    then have "add_to D (t ?c) (Some (q ?c)) = Inr D"
      using D(2) by (auto simp: add_to_cases)
    then have "step ?c (k, V0\<lparr>dw := D\<rparr>) = Inr (Suc k, V0\<lparr>dw := D\<rparr>)"
      by (simp add: step[OF kl D(2)])
    moreover have "\<forall>i<n. accumulate (map q (filter (\<lambda>c. t c = int i) (take (Suc k) cs))) = Some (D ! i)"
      using D(3) False by (auto simp: tk)
    ultimately show ?thesis using fe D(2) by (intro exI[of _ D]) simp
  next
    case True
    define i0 where "i0 = nat (t ?c)"
    have i0: "i0 < n" "t ?c = int i0" using True unfolding i0_def by linarith+
    have acc: "accumulate (map q (filter (\<lambda>c. t c = int i0) (take (Suc k) cs)))
        = oadd (Some (D ! i0)) (Some (q ?c))"
      using D(3) i0 by (simp add: tk accumulate_def)
    with pre[OF i0(1)] obtain v where v: "oadd (Some (D ! i0)) (Some (q ?c)) = Some v" by auto
    have "add_to D (t ?c) (Some (q ?c)) = Inr (D[i0 := v])"
      using D(2) True v by (simp add: add_to_cases i0_def)
    then have st: "step ?c (k, V0\<lparr>dw := D\<rparr>) = Inr (Suc k, V0\<lparr>dw := D[i0 := v]\<rparr>)"
      by (simp add: step[OF kl D(2)])
    have "\<forall>i<n. accumulate (map q (filter (\<lambda>c. t c = int i) (take (Suc k) cs))) = Some (D[i0 := v] ! i)"
    proof (intro allI impI)
      fix i assume i: "i < n"
      show "accumulate (map q (filter (\<lambda>c. t c = int i) (take (Suc k) cs))) = Some (D[i0 := v] ! i)"
      proof (cases "i = i0")
        case True
        then show ?thesis using acc v D(2) i by simp
      next
        case False
        then have "t ?c \<noteq> int i" using i0(2) by simp
        then show ?thesis using D(3) i False by (simp add: tk)
      qed
    qed
    then show ?thesis using fe st D(2) by (intro exI[of _ "D[i0 := v]"]) simp
  qed
qed

lemma filter_product_other:
  assumes "d \<notin> set ds"
  shows "filter (\<lambda>(d', p). d' = d \<and> P p) (List.product ds ps) = []"
  using assms by (induction ds) (auto simp: filter_empty_conv)

lemma filter_product_depth:
  assumes "distinct ds" "d \<in> set ds"
  shows "filter (\<lambda>(d', p). d' = d \<and> P p) (List.product ds ps) = map (Pair d) (filter P ps)"
  using assms
proof (induction ds)
  case Nil
  then show ?case by simp
next
  case (Cons a ds)
  show ?case
  proof (cases "a = d")
    case True
    then have "d \<notin> set ds" using Cons.prems(1) by simp
    then have "filter (\<lambda>(d', p). d' = d \<and> P p) (List.product ds ps) = []"
      by (rule filter_product_other)
    then show ?thesis using True by (simp add: filter_map comp_def)
  next
    case False
    then have "d \<in> set ds" using Cons.prems(2) by simp
    then have "filter (\<lambda>(d', p). d' = d \<and> P p) (List.product ds ps) = map (Pair d) (filter P ps)"
      using Cons.prems(1) by (intro Cons.IH) simp_all
    then show ?thesis using False by (simp add: filter_map comp_def filter_empty_conv)
  qed
qed

text \<open>
  C3. Max-pooling backward. For every layer and input that fit, after \<open>forward\<close> and with
  any gradients \<open>G\<close> on the output, as long as no sum overflows, \<open>backward\<close> returns and
  leaves the input values as they are. The gradient buffer of the input starts from zero
  and the chain gradient of every output cell is added at its recorded switch coordinate
  and depth and nowhere else: the gradient of every input cell \<open>(x, y, d)\<close> is what
  \<open>+=\<close> accumulates, from zero, of the chain gradients of the output cells of depth \<open>d\<close>
  whose recorded switch is \<open>(x, y)\<close>, in the order of the loops, each sum rounded. An input
  cell that is no recorded winner ends with gradient zero, and one that is the winner of
  a single output cell ends with the chain gradient of that cell.
\<close>

theorem pool_backward_routing:
  assumes wf: "pool_wf L V"
    and fwd: "pool_forward L V = Inr (L1, A)"
    and G: "int (length G) = p_out_sx L * p_out_sy L * p_out_depth L"
    and fin: "\<forall>x y d. 0 \<le> x \<and> x < sx V \<and> 0 \<le> y \<and> y < sy V \<and> 0 \<le> d \<and> d < depth V
                \<longrightarrow> accumulate (routed L1 (A\<lparr>dw := G\<rparr>) x y d) \<noteq> None"
    and r: "0 \<le> x" "x < sx V" "0 \<le> y" "y < sy V" "0 \<le> d" "d < depth V"
  shows "\<exists>L2 V'. pool_backward (L1\<lparr>p_out_act := Some (A\<lparr>dw := G\<rparr>)\<rparr>) = Inr L2
           \<and> p_in_act L2 = Some V' \<and> w V' = w V \<and> length (dw V') = length (w V)
           \<and> get_grad V' x y d = accumulate (routed L1 (A\<lparr>dw := G\<rparr>) x y d)
           \<and> ((\<forall>ax ay. 0 \<le> ax \<and> ax < p_out_sx L \<and> 0 \<le> ay \<and> ay < p_out_sy L
                  \<longrightarrow> \<not> (p_switchx L1 ! switch_index L d ax ay = x
                         \<and> p_switchy L1 ! switch_index L d ax ay = y))
                \<longrightarrow> get_grad V' x y d = Some 0)
           \<and> (\<forall>g. routed L1 (A\<lparr>dw := G\<rparr>) x y d = [g] \<and> is_double g
                \<longrightarrow> get_grad V' x y d = Some g)"
proof -
  from pool_forward_cells[OF wf] fwd obtain sxs sys where
    L1: "L1 = L\<lparr>p_switchx := sxs, p_switchy := sys, p_in_act := Some V, p_out_act := Some A\<rparr>"
    and A: "sx A = p_out_sx L" "sy A = p_out_sy L" "depth A = p_out_depth L"
    and lsw: "length sxs = length (p_switchx L)" "length sys = length (p_switchy L)"
    and sw: "\<And>d ax ay. 0 \<le> d \<and> d < p_out_depth L \<and> 0 \<le> ax \<and> ax < p_out_sx L
               \<and> 0 \<le> ay \<and> ay < p_out_sy L \<Longrightarrow>
              (sxs ! switch_index L d ax ay, sys ! switch_index L d ax ay)
                = snd (pool_window L V d (- p_pad L + ax * p_stride L) (- p_pad L + ay * p_stride L))"
    by auto
  define N where "N = p_out_sx L * p_out_sy L * p_out_depth L"
  define ps where "ps = List.product [0..p_out_sx L - 1] [0..p_out_sy L - 1]"
  define cs where "cs = List.product [0..p_out_depth L - 1] ps"
  define L1' where "L1' = L1\<lparr>p_out_act := Some (A\<lparr>dw := G\<rparr>)\<rparr>"
  define t where "t = (\<lambda>(d, ax, ay).
      ix V (sxs ! switch_index L d ax ay) (sys ! switch_index L d ax ay) d)"
  define q where "q = (\<lambda>(d, ax, ay). G ! nat (ix A ax ay d))"
  define n where "n = length (w V)"
  have o: "0 \<le> p_out_sx L" "0 \<le> p_out_sy L" "0 \<le> p_out_depth L"
    and ls: "int (length (p_switchx L)) = N" "int (length (p_switchy L)) = N"
    and dV: "p_out_depth L = depth V" and sV: "0 \<le> sx V"
    and lV: "int (length (w V)) = sx V * sy V * depth V"
    using wf by (simp_all add: pool_wf_def N_def)
  have lcs: "int (length cs) = N"
    using o by (simp add: cs_def ps_def N_def nat_mult_distrib mult.commute mult.left_commute)
  have si1: "switch_index L1 = switch_index L"
    by (intro ext) (simp add: switch_index_def L1)
  have step: "(case cs ! j of (d, ax, ay) \<Rightarrow> pool_back_cell L1' d ax ay) (j, V\<lparr>dw := D\<rparr>)
        = (case add_to D (t (cs ! j)) (Some (q (cs ! j))) of Inl e \<Rightarrow> Inl e
           | Inr D' \<Rightarrow> Inr (Suc j, V\<lparr>dw := D'\<rparr>))"
    if j: "j < length cs" for j D
  proof -
    from cells_positions[OF j[unfolded cs_def ps_def]] obtain d' ax ay where
      c: "cs ! j = (d', ax, ay)" and m: "0 \<le> d'" "d' < p_out_depth L" "0 \<le> ax" "ax < p_out_sx L"
        "0 \<le> ay" "ay < p_out_sy L" and si: "switch_index L d' ax ay = j"
      unfolding cs_def ps_def switch_index_def by blast
    have "0 \<le> ix A ax ay d'" "ix A ax ay d' < N"
      using flat_index_bounds[OF m(3,4,5,6,1,2)] by (simp_all add: ix_def A N_def)
    then have cg: "get_grad (A\<lparr>dw := G\<rparr>) ax ay d' = Some (G ! nat (ix A ax ay d'))"
      using G by (simp add: get_grad_def rd_def ix_def N_def)
    have "j < length sxs" "j < length sys" using j lcs ls lsw by linarith+
    then have sr: "rd (p_switchx L1') (int j) = Some (sxs ! j)"
                  "rd (p_switchy L1') (int j) = Some (sys ! j)"
      by (simp_all add: rd_def L1'_def L1)
    show ?thesis
      using cg sr
      by (simp add: c pool_back_cell_def L1'_def L1 Let_def t_def q_def si add_grad_def ix_def
            split: sum.splits)
  qed
  have cond: "(t (d', ax, ay) = ix V x y d)
      \<longleftrightarrow> (d' = d \<and> sxs ! switch_index L d' ax ay = x \<and> sys ! switch_index L d' ax ay = y)"
    if m: "0 \<le> d'" "d' < p_out_depth L" "0 \<le> ax" "ax < p_out_sx L" "0 \<le> ay" "ay < p_out_sy L"
      and r: "0 \<le> x" "x < sx V" "0 \<le> y" "y < sy V" "0 \<le> d" "d < depth V"
    for d' ax ay x y d
  proof
    assume "d' = d \<and> sxs ! switch_index L d' ax ay = x \<and> sys ! switch_index L d' ax ay = y"
    then show "t (d', ax, ay) = ix V x y d" by (auto simp add: t_def)
  next
    assume e: "t (d', ax, ay) = ix V x y d"
    let ?wx = "sxs ! switch_index L d' ax ay" and ?wy = "sys ! switch_index L d' ax ay"
    have i0: "0 \<le> ix V x y d" using flat_index_bounds[OF r] by (simp add: ix_def)
    obtain a where "pool_window L V d' (- p_pad L + ax * p_stride L) (- p_pad L + ay * p_stride L)
                     = (a, ?wx, ?wy)"
      using sw[of d' ax ay] m
      by (cases "pool_window L V d' (- p_pad L + ax * p_stride L) (- p_pad L + ay * p_stride L)") auto
    from pool_window_coords[OF this]
    consider "?wx = -1 \<and> ?wy = -1" | "0 \<le> ?wx \<and> ?wx < sx V \<and> 0 \<le> ?wy \<and> ?wy < sy V"
      by blast
    then show "d' = d \<and> ?wx = x \<and> ?wy = y"
    proof cases
      case 1
      have "depth V \<le> (sx V + 1) * depth V" using sV m(1,2) dV
        by (smt (verit) mult_le_cancel_right1)
      then have "ix V ?wx ?wy d' < 0" using 1 m(2) dV by (simp add: ix_def algebra_simps)
      then show ?thesis using e i0 by (simp add: t_def)
    next
      case 2
      have "(sx V * ?wy + ?wx) * depth V + d' = (sx V * y + x) * depth V + d"
        using e by (simp add: t_def ix_def)
      from flat_index_inj[OF _ _ m(1) _ r(1,2,5,6) this] 2 m(2) dV
      show ?thesis by auto
    qed
  qed
  have route: "map q (filter (\<lambda>c. t c = ix V x y d) cs) = routed L1 (A\<lparr>dw := G\<rparr>) x y d"
    if r: "0 \<le> x" "x < sx V" "0 \<le> y" "y < sy V" "0 \<le> d" "d < depth V" for x y d
  proof -
    have "filter (\<lambda>c. t c = ix V x y d) cs
        = filter (\<lambda>(d', p). d' = d \<and> (case p of (ax, ay) \<Rightarrow>
              sxs ! switch_index L d ax ay = x \<and> sys ! switch_index L d ax ay = y)) cs"
    proof (rule filter_cong[OF refl])
      fix c assume "c \<in> set cs"
      then obtain d' ax ay where c: "c = (d', ax, ay)"
        and m: "0 \<le> d'" "d' < p_out_depth L" "0 \<le> ax" "ax < p_out_sx L" "0 \<le> ay" "ay < p_out_sy L"
        by (auto simp: cs_def ps_def)
      show "(t c = ix V x y d) = (case c of (d', p) \<Rightarrow> d' = d \<and> (case p of (ax, ay) \<Rightarrow>
              sxs ! switch_index L d ax ay = x \<and> sys ! switch_index L d ax ay = y))"
        using cond[OF m r] by (auto simp: c)
    qed
    also have "\<dots> = map (Pair d) (filter (\<lambda>(ax, ay).
              sxs ! switch_index L d ax ay = x \<and> sys ! switch_index L d ax ay = y) ps)"
      unfolding cs_def using r(5,6) dV by (intro filter_product_depth) simp_all
    finally show ?thesis
      by (simp add: routed_def q_def L1 ps_def comp_def ix_def si1[unfolded L1] switch_index_def
            case_prod_unfold)
  qed
  have finacc: "accumulate (map q (filter (\<lambda>c. t c = int i) cs)) \<noteq> None" if "i < n" for i
  proof (cases "\<exists>c\<in>set cs. t c = int i")
    case False
    then have "filter (\<lambda>c. t c = int i) cs = []" by (simp add: filter_empty_conv)
    then show ?thesis by (simp add: accumulate_def)
  next
    case True
    then obtain d' ax ay where c: "(d', ax, ay) \<in> set cs" "t (d', ax, ay) = int i" by auto
    then have m: "0 \<le> d'" "d' < p_out_depth L" "0 \<le> ax" "ax < p_out_sx L" "0 \<le> ay" "ay < p_out_sy L"
      by (auto simp: cs_def ps_def)
    let ?wx = "sxs ! switch_index L d' ax ay" and ?wy = "sys ! switch_index L d' ax ay"
    obtain a where "pool_window L V d' (- p_pad L + ax * p_stride L) (- p_pad L + ay * p_stride L)
                     = (a, ?wx, ?wy)"
      using sw[of d' ax ay] m
      by (cases "pool_window L V d' (- p_pad L + ax * p_stride L) (- p_pad L + ay * p_stride L)") auto
    from pool_window_coords[OF this]
    consider "?wx = -1 \<and> ?wy = -1" | "0 \<le> ?wx \<and> ?wx < sx V \<and> 0 \<le> ?wy \<and> ?wy < sy V"
      by blast
    then show ?thesis
    proof cases
      case 1
      have "depth V \<le> (sx V + 1) * depth V" using sV m(1,2) dV
        by (smt (verit) mult_le_cancel_right1)
      then have "ix V ?wx ?wy d' < 0" using 1 m(2) dV by (simp add: ix_def algebra_simps)
      then show ?thesis using c(2) by (simp add: t_def)
    next
      case 2
      have e: "int i = ix V ?wx ?wy d'" using c(2) by (simp add: t_def)
      have "map q (filter (\<lambda>c. t c = ix V ?wx ?wy d') cs) = routed L1 (A\<lparr>dw := G\<rparr>) ?wx ?wy d'"
        using 2 m(1,2) dV by (intro route) simp_all
      moreover have "accumulate (routed L1 (A\<lparr>dw := G\<rparr>) ?wx ?wy d') \<noteq> None"
        using fin 2 m(1,2) dV by simp
      ultimately show ?thesis by (simp add: e)
    qed
  qed
  from accumulate_loop[of cs n "\<lambda>(d, ax, ay). pool_back_cell L1' d ax ay" V t q "length cs",
        OF step finacc]
  obtain D' where D':
    "foldE (\<lambda>(d, ax, ay). pool_back_cell L1' d ax ay) cs (0, V\<lparr>dw := replicate n 0\<rparr>)
       = Inr (length cs, V\<lparr>dw := D'\<rparr>)"
    "length D' = n"
    "\<forall>i<n. accumulate (map q (filter (\<lambda>c. t c = int i) cs)) = Some (D' ! i)"
    by auto
  have flat: "foldE (\<lambda>d. foldE (\<lambda>ax. foldE (\<lambda>ay. pool_back_cell L1' d ax ay)
                                       [0..p_out_sy L - 1]) [0..p_out_sx L - 1])
                       [0..p_out_depth L - 1] (0, V\<lparr>dw := replicate n 0\<rparr>)
            = foldE (\<lambda>(d, ax, ay). pool_back_cell L1' d ax ay) cs (0, V\<lparr>dw := replicate n 0\<rparr>)"
    unfolding cs_def ps_def by (rule foldE_product3)
  have pb: "pool_backward L1' = Inr (L1'\<lparr>p_in_act := Some (V\<lparr>dw := D'\<rparr>)\<rparr>)"
    using flat D'(1)
    by (simp add: pool_backward_def L1'_def L1 zeros_def n_def)
  have i0: "0 \<le> ix V x y d" "ix V x y d < int n"
    using flat_index_bounds[OF r] lV by (simp_all add: ix_def n_def)
  then have ni: "nat (ix V x y d) < n" by simp
  have "accumulate (map q (filter (\<lambda>c. t c = int (nat (ix V x y d))) cs))
          = Some (D' ! nat (ix V x y d))"
    using D'(3) ni by blast
  moreover have "int (nat (ix V x y d)) = ix V x y d" using i0(1) by simp
  ultimately have val: "Some (D' ! nat (ix V x y d)) = accumulate (routed L1 (A\<lparr>dw := G\<rparr>) x y d)"
    using route[OF r] by simp
  have gg: "get_grad (V\<lparr>dw := D'\<rparr>) x y d = accumulate (routed L1 (A\<lparr>dw := G\<rparr>) x y d)"
    using i0 D'(2) val by (simp add: get_grad_def rd_def ix_def)
  have pb2: "pool_backward (L1\<lparr>p_out_act := Some (A\<lparr>dw := G\<rparr>)\<rparr>)
      = Inr (L1\<lparr>p_out_act := Some (A\<lparr>dw := G\<rparr>), p_in_act := Some (V\<lparr>dw := D'\<rparr>)\<rparr>)"
    using pb unfolding L1'_def .
  have none: "accumulate (routed L1 (A\<lparr>dw := G\<rparr>) x y d) = Some 0"
    if "\<forall>ax ay. 0 \<le> ax \<and> ax < p_out_sx L \<and> 0 \<le> ay \<and> ay < p_out_sy L
          \<longrightarrow> \<not> (p_switchx L1 ! switch_index L d ax ay = x \<and> p_switchy L1 ! switch_index L d ax ay = y)"
  proof -
    have "routed L1 (A\<lparr>dw := G\<rparr>) x y d = []"
      using that by (auto simp: routed_def filter_empty_conv L1 switch_index_def)
    then show ?thesis by (simp add: accumulate_def)
  qed
  have one: "accumulate (routed L1 (A\<lparr>dw := G\<rparr>) x y d) = Some g"
    if "routed L1 (A\<lparr>dw := G\<rparr>) x y d = [g] \<and> is_double g" for g
    using that by (simp add: accumulate_def oadd_def is_double_def)
  show ?thesis
    apply (rule exI[of _ "L1\<lparr>p_out_act := Some (A\<lparr>dw := G\<rparr>), p_in_act := Some (V\<lparr>dw := D'\<rparr>)\<rparr>"])
    apply (rule exI[of _ "V\<lparr>dw := D'\<rparr>"])
    using pb2 gg D'(2) none one by (simp add: n_def)
qed

theorem pool_backward_routing_witness:
  "pool_wf ex_pool ex_pool_input
   \<and> (\<exists>L1 A. pool_forward ex_pool ex_pool_input = Inr (L1, A)
        \<and> p_switchx L1 = [0] \<and> p_switchy L1 = [1]
        \<and> routed L1 (A\<lparr>dw := [5]\<rparr>) 0 1 0 = [5] \<and> routed L1 (A\<lparr>dw := [5]\<rparr>) 0 0 0 = []
        \<and> (\<exists>L2 V'. pool_backward (L1\<lparr>p_out_act := Some (A\<lparr>dw := [5]\<rparr>)\<rparr>) = Inr L2
              \<and> p_in_act L2 = Some V'
              \<and> get_grad V' 0 1 0 = Some 5 \<and> get_grad V' 0 0 0 = Some 0))"
proof -
  let ?A = "\<lparr>sx = 1, sy = 1, depth = 1, w = [3::real], dw = [0::real]\<rparr>"
  let ?L1 = "ex_pool\<lparr>p_switchx := [0], p_switchy := [1], p_in_act := Some ex_pool_input,
               p_out_act := Some ?A\<rparr>"
  have wf: "pool_wf ex_pool ex_pool_input"
    by (simp add: pool_wf_def ex_pool_def ex_pool_input_def)
  have rt: "routed ?L1 \<lparr>sx = 1, sy = 1, depth = 1, w = [3], dw = [5]\<rparr> x y 0
              = (if x = 0 \<and> y = 1 then [5] else [])" for x y
    by (simp add: routed_def ex_pool_def upto_small switch_index_def ix_def)
  have fin: "\<forall>x y d. 0 \<le> x \<and> x < sx ex_pool_input \<and> 0 \<le> y \<and> y < sy ex_pool_input
                \<and> 0 \<le> d \<and> d < depth ex_pool_input
                \<longrightarrow> accumulate (routed ?L1 (?A\<lparr>dw := [5]\<rparr>) x y d) \<noteq> None"
  proof (intro allI impI)
    fix x y d :: int
    assume "0 \<le> x \<and> x < sx ex_pool_input \<and> 0 \<le> y \<and> y < sy ex_pool_input
                \<and> 0 \<le> d \<and> d < depth ex_pool_input"
    then have "d = 0" by (simp add: ex_pool_input_def)
    then show "accumulate (routed ?L1 (?A\<lparr>dw := [5]\<rparr>) x y d) \<noteq> None"
      by (simp add: rt accumulate_def oadd_def fl_eval)
  qed
  have r: "int (length [5::real]) = p_out_sx ex_pool * p_out_sy ex_pool * p_out_depth ex_pool"
    "(0::int) \<le> 0" "0 < sx ex_pool_input" "(0::int) \<le> 1" "1 < sy ex_pool_input"
    "0 < sy ex_pool_input" "0 < depth ex_pool_input"
    by (simp_all add: ex_pool_def ex_pool_input_def)
  from pool_backward_routing[OF wf ex_pool_forward r(1) fin r(2) r(3) r(4) r(5) r(2) r(7)]
  obtain L2 V' where a: "pool_backward (?L1\<lparr>p_out_act := Some (?A\<lparr>dw := [5]\<rparr>)\<rparr>) = Inr L2"
      "p_in_act L2 = Some V'" "get_grad V' 0 1 0 = Some 5"
    by (auto simp add: rt accumulate_def oadd_def fl_eval)
  from pool_backward_routing[OF wf ex_pool_forward r(1) fin r(2) r(3) r(2) r(6) r(2) r(7)]
  obtain L2' V'' where b: "pool_backward (?L1\<lparr>p_out_act := Some (?A\<lparr>dw := [5]\<rparr>)\<rparr>) = Inr L2'"
      "p_in_act L2' = Some V''" "get_grad V'' 0 0 0 = Some 0"
    by (auto simp add: rt accumulate_def oadd_def fl_eval)
  from a(1) b(1) have "L2' = L2" by simp
  with a(2) b(2) have "V'' = V'" by simp
  with a b wf rt show ?thesis
    by (simp add: ex_pool_forward)
qed

text \<open>
  The rounding is visible where several output cells share a winner: with padding \<open>1\<close> the
  four windows of a \<open>2 \<times> 2\<close> pooling over a single input cell all hold that cell, and the
  chain gradients \<open>10^16, 1, 1, 0\<close> accumulate to \<open>10^16\<close>.
\<close>

lemma ex_pool_overlap_forward:
  "PoolLayer ((new_def ''pool'')\<lparr>o_sx := Some 2, o_stride := Some 1, o_pad := Some 1,
       o_in_sx := Some 1, o_in_sy := Some 1, o_in_depth := Some 1\<rparr>) = Inr ex_pool_overlap
   \<and> pool_forward ex_pool_overlap ex_unit_input
     = Inr (ex_pool_overlap\<lparr>p_switchx := [0, 0, 0, 0], p_switchy := [0, 0, 0, 0],
               p_in_act := Some ex_unit_input,
               p_out_act := Some \<lparr>sx = 2, sy = 2, depth = 1, w = [7, 7, 7, 7], dw = [0, 0, 0, 0]\<rparr>\<rparr>,
            \<lparr>sx = 2, sy = 2, depth = 1, w = [7, 7, 7, 7], dw = [0, 0, 0, 0]\<rparr>)"
  using out_size_exact[of 1 1 2 1]
  by (simp add: PoolLayer_def new_def_def dflt_def switch_zeros_def zeros_def
        ex_pool_overlap_def ex_unit_input_def pool_eval numeral_eq_Suc)

lemma pool_backward_rounds:
  "pool_backward (ex_pool_overlap\<lparr>p_in_act := Some ex_unit_input,
       p_out_act := Some \<lparr>sx = 2, sy = 2, depth = 1, w = [7, 7, 7, 7],
                           dw = [10000000000000000, 1, 1, 0]\<rparr>\<rparr>)
     = Inr (ex_pool_overlap\<lparr>p_in_act := Some (ex_unit_input\<lparr>dw := [10000000000000000]\<rparr>),
       p_out_act := Some \<lparr>sx = 2, sy = 2, depth = 1, w = [7, 7, 7, 7],
                           dw = [10000000000000000, 1, 1, 0]\<rparr>\<rparr>)"
  by (simp add: ex_pool_overlap_def ex_unit_input_def pool_eval fl_tie_example fl_big_example)

lemma fold_sums_exact:
  fixes gs :: "int list" and a :: int
  assumes "\<bar>a\<bar> + (\<Sum>g\<leftarrow>gs. \<bar>g\<bar>) \<le> 2 ^ 53"
  shows "fold (\<lambda>g acc. oadd acc (Some g)) (map of_int gs) (Some (of_int a))
           = Some (of_int (a + sum_list gs))"
  using assms
proof (induction gs arbitrary: a)
  case Nil
  then show ?case by simp
next
  case (Cons g gs)
  have nn: "0 \<le> (\<Sum>g\<leftarrow>gs. \<bar>g\<bar>)" by (rule sum_list_nonneg) auto
  have b: "\<bar>a + g\<bar> \<le> 2 ^ 53" "\<bar>a + g\<bar> + (\<Sum>g\<leftarrow>gs. \<bar>g\<bar>) \<le> 2 ^ 53"
    using Cons.prems nn by simp_all
  have s: "oadd (Some (real_of_int a)) (Some (real_of_int g)) = Some (of_int (a + g))"
    using fl_int[OF b(1)] by (simp add: oadd_def)
  have "fold (\<lambda>g acc. oadd acc (Some g)) (map of_int (g # gs)) (Some (of_int a))
          = fold (\<lambda>g acc. oadd acc (Some g)) (map of_int gs) (Some (of_int (a + g)))"
    by (simp only: list.map fold_simps s)
  also have "\<dots> = Some (of_int (a + g + sum_list gs))" by (rule Cons.IH[OF b(2)])
  finally show ?case by (simp add: add.assoc)
qed

text \<open>
  Where nothing is rounded, what accumulates is the sum of the reals: for integer values
  whose absolute values add up to at most \<open>2^53\<close>.
\<close>

lemma accumulate_exact:
  fixes gs :: "int list"
  assumes "(\<Sum>g\<leftarrow>gs. \<bar>g\<bar>) \<le> 2 ^ 53"
  shows "accumulate (map of_int gs) = Some (of_int (sum_list gs))"
  using fold_sums_exact[of 0 gs] assms by (simp add: accumulate_def)

end
